theory Spec2Isabelle
  imports Main "HOL-Library.AList"
begin

section \<open>Values: JSON data, validated models, errors, log records\<close>

text \<open>
  Raw inputs, messages and responses are Python \<^verbatim>\<open>dict\<close>s that come from JSON
  (\<^verbatim>\<open>request.json()\<close>, \<^verbatim>\<open>PublishRequest.payload\<close>, \<^verbatim>\<open>model_dump()\<close>). A dict is an
  association list in insertion order; a lookup reads the first binding of a key.
  No schema of the repository has a numeric field, so numbers are integers here.
\<close>

datatype json =
    JNull
  | JBool bool
  | JNum int
  | JStr string
  | JArr "json list"
  | JObj "(string \<times> json) list"

type_synonym dict = "(string \<times> json) list"

text \<open>
  The value of a field of a validated pydantic model. \<open>PyModel c fs\<close> is an instance of
  the model class named \<open>c\<close> with the field values \<open>fs\<close>, in declaration order.
\<close>

datatype pyval =
    PyNone
  | PyBool bool
  | PyInt int
  | PyStr string
  | PyList "pyval list"
  | PyDict "(string \<times> pyval) list"
  | PyModel string "(string \<times> pyval) list"

type_synonym model = "string \<times> (string \<times> pyval) list"

text \<open>
  The exceptions the modelled code raises. \<open>ValueError\<close> carries its message: the broker
  raises it with two different messages. \<open>RecursionError\<close> is what Python raises when
  handler invocations nest deeper than the interpreter allows; the allowed depth is the
  fuel of \<open>publish\<close> below.
\<close>

datatype error =
    ValidationError
  | ValueError string
  | KeyError string
  | AttributeError string
  | IndexError
  | DisambiguationError
  | PageError
  | InferenceError string
  | RecursionError

text \<open>One constructor for each \<^verbatim>\<open>logging.info\<close> call of the code, with the values it formats.\<close>

datatype log_entry =
    LogRegisteringTopic string
  | LogSkippingRegistration string
  | LogMessagePublished string string
  | LogResponse dict
  | LogRunningPrediction string
  | LogModelInput dict
  | LogModelOutput dict
  | LogChaining string string dict

section \<open>Schemas (\<^verbatim>\<open>pydantic.BaseModel\<close> classes)\<close>

text \<open>
  A field has a validator for the raw value and, when it is not required, the default the
  class supplies. A schema is a class name with its fields in declaration order.
\<close>

record field_info =
  validator :: "json \<Rightarrow> pyval option"
  default_value :: "pyval option"

record schema =
  schema_name :: string
  schema_fields :: "(string \<times> field_info) list"

text \<open>
  \<^verbatim>\<open>Schema(**model_input)\<close>: every declared field is read from the input, or takes its
  default when the key is absent; a missing required field or a rejected value fails the
  whole call. Keys the schema does not declare are ignored.
\<close>

definition field_value :: "field_info \<Rightarrow> json option \<Rightarrow> pyval option" where
  "field_value fi raw = (case raw of Some v \<Rightarrow> validator fi v | None \<Rightarrow> default_value fi)"

fun validate_fields :: "(string \<times> field_info) list \<Rightarrow> dict \<Rightarrow> (string \<times> pyval) list option" where
  "validate_fields [] d = Some []"
| "validate_fields ((f, fi) # fs) d =
     (case field_value fi (map_of d f) of
        None \<Rightarrow> None
      | Some v \<Rightarrow> (case validate_fields fs d of None \<Rightarrow> None | Some vs \<Rightarrow> Some ((f, v) # vs)))"

definition model_validate :: "schema \<Rightarrow> dict \<Rightarrow> error + model" where
  "model_validate s d =
     (case validate_fields (schema_fields s) d of
        None \<Rightarrow> Inl ValidationError
      | Some vs \<Rightarrow> Inr (schema_name s, vs))"

text \<open>\<^verbatim>\<open>model_dump()\<close>: the fields of a model as plain data, nested models as dicts.\<close>

fun dump_value :: "pyval \<Rightarrow> json" where
  "dump_value PyNone = JNull"
| "dump_value (PyBool b) = JBool b"
| "dump_value (PyInt i) = JNum i"
| "dump_value (PyStr s) = JStr s"
| "dump_value (PyList xs) = JArr (map dump_value xs)"
| "dump_value (PyDict kvs) = JObj (map (\<lambda>(k, v). (k, dump_value v)) kvs)"
| "dump_value (PyModel c kvs) = JObj (map (\<lambda>(k, v). (k, dump_value v)) kvs)"

definition model_dump :: "model \<Rightarrow> dict" where
  "model_dump m = map (\<lambda>(k, v). (k, dump_value v)) (snd m)"

section \<open>The capability contract (\<^verbatim>\<open>model_services/base.py\<close>)\<close>

text \<open>
  A \<^verbatim>\<open>ModelService\<close>: its name, the two schema classes it declares and its inference step
  \<^verbatim>\<open>_predict\<close>, which is abstract in the base class and may raise.
\<close>

record ModelService =
  model_name :: string
  get_input_schema :: schema
  get_output_schema :: schema
  infer :: "model \<Rightarrow> error + model"

definition trigger_topic :: "ModelService \<Rightarrow> string" where
  "trigger_topic s = model_name s @ ''-trigger''"

text \<open>
  \<^verbatim>\<open>ModelService.predict\<close>, with the log as explicit state: the records written before an
  exception stay written.
\<close>

definition predict :: "ModelService \<Rightarrow> dict \<Rightarrow> log_entry list \<Rightarrow> (error + dict) \<times> log_entry list" where
  "predict s model_input lg =
     (let lg1 = lg @ [LogRunningPrediction (model_name s)];
          lg2 = lg1 @ [LogModelInput model_input]
      in case model_validate (get_input_schema s) model_input of
           Inl e \<Rightarrow> (Inl e, lg2)
         | Inr schematized_input \<Rightarrow>
             (case infer s schematized_input of
                Inl e \<Rightarrow> (Inl e, lg2)
              | Inr schematized_output \<Rightarrow>
                  (let raw_output = model_dump schematized_output
                   in (Inr raw_output, lg2 @ [LogModelOutput raw_output]))))"

section \<open>The broker (\<^verbatim>\<open>pubsub.py\<close>)\<close>

text \<open>
  The only callables the program registers are a service's bound \<^verbatim>\<open>predict\<close> and the
  closure \<^verbatim>\<open>chained_callback\<close> of the registry, which captures the source and the target
  service. The closure publishes through the registry's client, which is the client the
  closure is registered with.
\<close>

datatype handler =
    Predict ModelService
  | ChainedCallback ModelService ModelService

record PubSubClient =
  message_queues :: "string \<rightharpoonup> handler option"
  last_responses :: "string \<rightharpoonup> dict"

record world =
  pubsub_client :: PubSubClient
  logged :: "log_entry list"

definition PubSubClient_init :: PubSubClient where
  "PubSubClient_init = \<lparr>message_queues = Map.empty, last_responses = Map.empty\<rparr>"

definition log_info :: "log_entry \<Rightarrow> world \<Rightarrow> world" where
  "log_info e w = w\<lparr>logged := logged w @ [e]\<rparr>"

definition set_callback :: "string \<Rightarrow> handler option \<Rightarrow> world \<Rightarrow> world" where
  "set_callback topic cb w =
     w\<lparr>pubsub_client := (pubsub_client w)
          \<lparr>message_queues := (message_queues (pubsub_client w))(topic \<mapsto> cb)\<rparr>\<rparr>"

definition register_topic :: "string \<Rightarrow> handler \<Rightarrow> world \<Rightarrow> world" where
  "register_topic topic callback w =
     (let w1 = (if topic \<notin> dom (message_queues (pubsub_client w))
                then set_callback topic None (log_info (LogRegisteringTopic topic) w)
                else log_info (LogSkippingRegistration topic) w)
      in set_callback topic (Some callback) w1)"

definition get_last_response :: "world \<Rightarrow> string \<Rightarrow> dict" where
  "get_last_response w topic =
     (case last_responses (pubsub_client w) topic of None \<Rightarrow> [] | Some r \<Rightarrow> r)"

text \<open>
  \<^verbatim>\<open>chained_callback\<close> of \<^verbatim>\<open>ModelRegistry._create_chained_callback\<close>. Its first
  argument is the \<^verbatim>\<open>publish\<close> of the captured client, called without a message id.
\<close>

definition chained_callback ::
  "(string \<Rightarrow> dict \<Rightarrow> world \<Rightarrow> (error + dict) \<times> world) \<Rightarrow>
   ModelService \<Rightarrow> ModelService \<Rightarrow> dict \<Rightarrow> world \<Rightarrow> (error + dict) \<times> world" where
  "chained_callback pub source_service target_service model_input w =
     (let w1 = log_info (LogChaining (model_name source_service) (model_name target_service)
                 model_input) w
      in case predict source_service model_input (logged w1) of
           (Inl e, lg) \<Rightarrow> (Inl e, w1\<lparr>logged := lg\<rparr>)
         | (Inr source_output, lg) \<Rightarrow>
             (case pub (trigger_topic target_service) source_output (w1\<lparr>logged := lg\<rparr>) of
                (Inl e, w2) \<Rightarrow> (Inl e, w2)
              | (Inr r, w2) \<Rightarrow> (Inr source_output, w2)))"

text \<open>Calling a registered callback with a message.\<close>

fun invoke ::
  "(string \<Rightarrow> dict \<Rightarrow> world \<Rightarrow> (error + dict) \<times> world) \<Rightarrow>
   handler \<Rightarrow> dict \<Rightarrow> world \<Rightarrow> (error + dict) \<times> world" where
  "invoke pub (Predict s) message w =
     (case predict s message (logged w) of (r, lg) \<Rightarrow> (r, w\<lparr>logged := lg\<rparr>))"
| "invoke pub (ChainedCallback s t) message w = chained_callback pub s t message w"

text \<open>
  \<^verbatim>\<open>PubSubClient.publish\<close>, lines 30 to 34: the two checks that come before the callback
  runs.
\<close>

definition lookup_callback :: "world \<Rightarrow> string \<Rightarrow> error + handler" where
  "lookup_callback w topic =
     (case message_queues (pubsub_client w) topic of
        None \<Rightarrow> Inl (ValueError (''Topic '' @ topic @ '' not registered.''))
      | Some None \<Rightarrow> Inl (ValueError (''No callback registered for topic '' @ topic @ ''.''))
      | Some (Some callback) \<Rightarrow> Inr callback)"

text \<open>Lines 36 to 39: what \<^verbatim>\<open>publish\<close> does once the callback has returned.\<close>

definition store_response :: "string \<Rightarrow> string \<Rightarrow> dict \<Rightarrow> world \<Rightarrow> (error + dict) \<times> world" where
  "store_response topic message_id response w =
     (let w1 = log_info (LogResponse response) (log_info (LogMessagePublished message_id topic) w)
      in (Inr response,
          w1\<lparr>pubsub_client := (pubsub_client w1)
               \<lparr>last_responses := (last_responses (pubsub_client w1))(topic \<mapsto> response)\<rparr>\<rparr>))"

text \<open>
  \<^verbatim>\<open>PubSubClient.publish\<close>. A callback may publish again, and the chain graph may have a
  cycle, so the first argument bounds how deep callbacks may nest: with none left, the call
  that would run a callback raises \<open>RecursionError\<close> instead.
\<close>

fun publish :: "nat \<Rightarrow> string \<Rightarrow> dict \<Rightarrow> string \<Rightarrow> world \<Rightarrow> (error + dict) \<times> world" where
  "publish fuel topic message message_id w =
     (case lookup_callback w topic of
        Inl e \<Rightarrow> (Inl e, w)
      | Inr callback \<Rightarrow>
          (case fuel of
             0 \<Rightarrow> (Inl RecursionError, w)
           | Suc n \<Rightarrow>
               (case invoke (\<lambda>t m. publish n t m ''no-id'') callback message w of
                  (Inl e, w1) \<Rightarrow> (Inl e, w1)
                | (Inr response, w1) \<Rightarrow> store_response topic message_id response w1)))"

declare publish.simps [simp del]

section \<open>The registry (\<^verbatim>\<open>model_registry.py\<close>)\<close>

text \<open>
  The class-level state of \<^verbatim>\<open>ModelRegistry\<close>: the catalog \<^verbatim>\<open>_model_services\<close> and the
  successor table \<^verbatim>\<open>_chains\<close>, both keyed by service name, in insertion order. A service
  class is represented by the instance its constructor builds, so the \<^verbatim>\<open>issubclass\<close> checks
  of the two decorators hold by typing.
\<close>

record ModelRegistry =
  model_services :: "(string \<times> ModelService) list"
  chains :: "(string \<times> string) list"

definition register :: "ModelService \<Rightarrow> ModelRegistry \<Rightarrow> ModelRegistry" where
  "register model_service_class cls =
     cls\<lparr>model_services :=
           AList.update (model_name model_service_class) model_service_class (model_services cls)\<rparr>"

definition chain_to :: "ModelService \<Rightarrow> ModelService \<Rightarrow> ModelRegistry \<Rightarrow> ModelRegistry" where
  "chain_to target_service_class source_service_class cls =
     cls\<lparr>chains :=
           AList.update (model_name source_service_class) (model_name target_service_class)
             (chains cls)\<rparr>"

text \<open>\<^verbatim>\<open>_initialize_services\<close>, first loop: one instance for each catalog entry, keyed by its name.\<close>

definition create_instances :: "(string \<times> ModelService) list \<Rightarrow> (string \<times> ModelService) list" where
  "create_instances catalog =
     foldl (\<lambda>acc service. AList.update (model_name service) service acc) [] (map snd catalog)"

text \<open>
  The body of the second loop up to the registration: the callback of one service. Reading
  \<^verbatim>\<open>self._service_instances[...]\<close> for a name that has no instance raises \<open>KeyError\<close>.
\<close>

definition select_callback ::
  "(string \<times> string) list \<Rightarrow> (string \<times> ModelService) list \<Rightarrow> string \<Rightarrow> ModelService \<Rightarrow> error + handler" where
  "select_callback chs instances service_name service =
     (case map_of chs service_name of
        Some target_name \<Rightarrow>
          (case map_of instances target_name of
             None \<Rightarrow> Inl (KeyError target_name)
           | Some target_service \<Rightarrow> Inr (ChainedCallback service target_service))
      | None \<Rightarrow> Inr (Predict service))"

fun setup_topics ::
  "(string \<times> string) list \<Rightarrow> (string \<times> ModelService) list \<Rightarrow> (string \<times> ModelService) list \<Rightarrow>
   world \<Rightarrow> (error + unit) \<times> world" where
  "setup_topics chs instances [] w = (Inr (), w)"
| "setup_topics chs instances ((service_name, service) # rest) w =
     (case select_callback chs instances service_name service of
        Inl e \<Rightarrow> (Inl e, w)
      | Inr callback \<Rightarrow>
          setup_topics chs instances rest (register_topic (trigger_topic service) callback w))"

text \<open>
  \<^verbatim>\<open>ModelRegistry.__init__\<close> with \<^verbatim>\<open>_initialize_services\<close>: the result is the table
  \<^verbatim>\<open>_service_instances\<close> of the new registry, or the exception that ended the construction;
  the registrations made before an exception stay in the client.
\<close>

definition initialize_services ::
  "ModelRegistry \<Rightarrow> world \<Rightarrow> (error + (string \<times> ModelService) list) \<times> world" where
  "initialize_services cls w =
     (let instances = create_instances (model_services cls)
      in case setup_topics (chains cls) instances instances w of
           (Inl e, w1) \<Rightarrow> (Inl e, w1)
         | (Inr u, w1) \<Rightarrow> (Inr instances, w1))"

definition get_model :: "(string \<times> ModelService) list \<Rightarrow> string \<Rightarrow> error + ModelService" where
  "get_model service_instances name =
     (case map_of service_instances name of
        None \<Rightarrow> Inl (ValueError (''Model service '' @ [CHR 39] @ name @ [CHR 39] @ '' not found.''))
      | Some s \<Rightarrow> Inr s)"

definition model_names :: "ModelRegistry \<Rightarrow> string list" where
  "model_names cls = map fst (model_services cls)"

section \<open>The schemas and services of the repository\<close>

subsection \<open>Field validators\<close>

text \<open>
  What pydantic accepts for the field types \<^verbatim>\<open>schemas.py\<close> uses, on JSON data: a \<^verbatim>\<open>str\<close>
  field takes a string, a \<^verbatim>\<open>Literal[True]\<close> or \<^verbatim>\<open>Literal[False]\<close> field that boolean or
  the integer equal to it (1 for \<^verbatim>\<open>True\<close>, 0 for \<^verbatim>\<open>False\<close>) and stores the boolean, a
  list field a list of accepted items, a model field a dict the model accepts. The members
  of a union are tried in order; those of the repository exclude each other by their
  \<^verbatim>\<open>wikipedia_entries_found\<close> literal.
\<close>

definition v_str :: "json \<Rightarrow> pyval option" where
  "v_str v = (case v of JStr s \<Rightarrow> Some (PyStr s) | _ \<Rightarrow> None)"

definition v_literal :: "bool \<Rightarrow> json \<Rightarrow> pyval option" where
  "v_literal b v =
     (case v of
        JBool c \<Rightarrow> (if c = b then Some (PyBool b) else None)
      | JNum i \<Rightarrow> (if i = (if b then 1 else 0) then Some (PyBool b) else None)
      | _ \<Rightarrow> None)"

definition v_list :: "(json \<Rightarrow> pyval option) \<Rightarrow> json \<Rightarrow> pyval option" where
  "v_list item v = (case v of JArr xs \<Rightarrow> map_option PyList (those (map item xs)) | _ \<Rightarrow> None)"

definition v_model :: "schema \<Rightarrow> json \<Rightarrow> pyval option" where
  "v_model s v =
     (case v of
        JObj d \<Rightarrow> (case model_validate s d of Inl e \<Rightarrow> None | Inr m \<Rightarrow> Some (PyModel (fst m) (snd m)))
      | _ \<Rightarrow> None)"

fun v_union :: "(json \<Rightarrow> pyval option) list \<Rightarrow> json \<Rightarrow> pyval option" where
  "v_union [] v = None"
| "v_union (m # ms) v = (case m v of Some r \<Rightarrow> Some r | None \<Rightarrow> v_union ms v)"

definition required :: "(json \<Rightarrow> pyval option) \<Rightarrow> field_info" where
  "required v = \<lparr>validator = v, default_value = None\<rparr>"

definition with_default :: "(json \<Rightarrow> pyval option) \<Rightarrow> pyval \<Rightarrow> field_info" where
  "with_default v d = \<lparr>validator = v, default_value = Some d\<rparr>"

subsection \<open>\<^verbatim>\<open>model_services/schemas.py\<close>\<close>

text \<open>
  The \<^verbatim>\<open>id\<close> fields of the recognition schemas default to a fresh \<^verbatim>\<open>uuid.uuid4()\<close>; the
  string the factory returns is the parameter \<open>uuid4\<close>.
\<close>

definition Entity :: schema where
  "Entity = \<lparr>schema_name = ''Entity'',
     schema_fields = [(''text'', required v_str), (''label'', required v_str)]\<rparr>"

definition WikipediaEntityFound :: schema where
  "WikipediaEntityFound = \<lparr>schema_name = ''WikipediaEntityFound'',
     schema_fields = [(''text'', required v_str),
       (''wikipedia_entries_found'', required (v_literal True)),
       (''title'', required v_str), (''url'', required v_str), (''content'', required v_str)]\<rparr>"

definition SummarizedWikipediaEntity :: schema where
  "SummarizedWikipediaEntity = \<lparr>schema_name = ''SummarizedWikipediaEntity'',
     schema_fields = schema_fields WikipediaEntityFound @ [(''summary'', required v_str)]\<rparr>"

definition WikipediaEntityNotFound :: schema where
  "WikipediaEntityNotFound = \<lparr>schema_name = ''WikipediaEntityNotFound'',
     schema_fields = [(''text'', required v_str),
       (''wikipedia_entries_found'', required (v_literal False))]\<rparr>"

definition WikipediaEntity :: "json \<Rightarrow> pyval option" where
  "WikipediaEntity = v_union [v_model WikipediaEntityFound, v_model WikipediaEntityNotFound]"

definition EntityRecognitionInputSchema :: "string \<Rightarrow> schema" where
  "EntityRecognitionInputSchema uuid4 = \<lparr>schema_name = ''EntityRecognitionInputSchema'',
     schema_fields = [(''id'', with_default v_str (PyStr uuid4)), (''text'', required v_str)]\<rparr>"

definition EntityRecognitionResultSchema :: "string \<Rightarrow> schema" where
  "EntityRecognitionResultSchema uuid4 = \<lparr>schema_name = ''EntityRecognitionResultSchema'',
     schema_fields = [(''id'', with_default v_str (PyStr uuid4)), (''text'', required v_str),
       (''entities'', required (v_list (v_model Entity)))]\<rparr>"

definition EntityLinkingInputSchema :: "string \<Rightarrow> schema" where
  "EntityLinkingInputSchema uuid4 =
     (EntityRecognitionResultSchema uuid4)\<lparr>schema_name := ''EntityLinkingInputSchema''\<rparr>"

definition EntityLinkingResultSchema :: schema where
  "EntityLinkingResultSchema = \<lparr>schema_name = ''EntityLinkingResultSchema'',
     schema_fields = [(''id'', required v_str), (''text'', required v_str),
       (''linked_entities'', required (v_list WikipediaEntity))]\<rparr>"

definition EntitySummarizationInputSchema :: schema where
  "EntitySummarizationInputSchema =
     EntityLinkingResultSchema\<lparr>schema_name := ''EntitySummarizationInputSchema''\<rparr>"

definition EntitySummarizationResultSchema :: schema where
  "EntitySummarizationResultSchema = \<lparr>schema_name = ''EntitySummarizationResultSchema'',
     schema_fields = [(''id'', required v_str), (''text'', required v_str),
       (''summarized_entities'', required
          (v_list (v_union [v_model SummarizedWikipediaEntity, v_model WikipediaEntityNotFound])))]\<rparr>"

subsection \<open>Reading the fields of a validated model\<close>

definition and_then :: "error + 'a \<Rightarrow> ('a \<Rightarrow> error + 'b) \<Rightarrow> error + 'b" where
  "and_then r f = (case r of Inl e \<Rightarrow> Inl e | Inr x \<Rightarrow> f x)"

text \<open>
  An attribute read; a missing attribute raises \<open>AttributeError\<close>, also on a value that
  is no model. The readers below also say which Python type the value is used at. On a model that passed its schema every read
  of a declared field succeeds.
\<close>

definition attr :: "model \<Rightarrow> string \<Rightarrow> error + pyval" where
  "attr m n = (case map_of (snd m) n of None \<Rightarrow> Inl (AttributeError n) | Some v \<Rightarrow> Inr v)"

definition str_attr :: "model \<Rightarrow> string \<Rightarrow> error + string" where
  "str_attr m n = and_then (attr m n) (\<lambda>v. case v of PyStr s \<Rightarrow> Inr s | _ \<Rightarrow> Inl ValidationError)"

definition list_attr :: "model \<Rightarrow> string \<Rightarrow> error + pyval list" where
  "list_attr m n = and_then (attr m n) (\<lambda>v. case v of PyList xs \<Rightarrow> Inr xs | _ \<Rightarrow> Inl ValidationError)"

definition as_model :: "string \<Rightarrow> pyval \<Rightarrow> error + model" where
  "as_model n v = (case v of PyModel c fs \<Rightarrow> Inr (c, fs) | _ \<Rightarrow> Inl (AttributeError n))"

text \<open>A \<^verbatim>\<open>for\<close> loop that builds a list and stops at the first exception.\<close>

fun for_each :: "('a \<Rightarrow> error + 'b) \<Rightarrow> 'a list \<Rightarrow> error + 'b list" where
  "for_each f [] = Inr []"
| "for_each f (x # xs) =
     and_then (f x) (\<lambda>y. and_then (for_each f xs) (\<lambda>ys. Inr (y # ys)))"

subsection \<open>\<^verbatim>\<open>model_services/entity_recognition.py\<close>\<close>

text \<open>
  The Hugging Face pipeline is a parameter: \<open>ner_pipeline\<close> maps a text to the
  \<^verbatim>\<open>word\<close> and \<^verbatim>\<open>entity_group\<close> of each result.
\<close>

definition EntityRecognition_predict ::
  "(string \<Rightarrow> (string \<times> string) list) \<Rightarrow> model \<Rightarrow> error + model" where
  "EntityRecognition_predict ner_pipeline model_input =
     and_then (str_attr model_input ''text'') (\<lambda>text.
       (let ner_results = ner_pipeline text;
            entities = map (\<lambda>(word, entity_group).
                PyModel ''Entity'' [(''text'', PyStr word), (''label'', PyStr entity_group)])
              ner_results
        in and_then (str_attr model_input ''id'') (\<lambda>ident.
             Inr (''EntityRecognitionResultSchema'',
                  [(''id'', PyStr ident), (''text'', PyStr text), (''entities'', PyList entities)]))))"

definition EntityRecognitionModelService ::
  "(string \<Rightarrow> (string \<times> string) list) \<Rightarrow> string \<Rightarrow> ModelService" where
  "EntityRecognitionModelService ner_pipeline uuid4 =
     \<lparr>model_name = ''entity-recognition'',
      get_input_schema = EntityRecognitionInputSchema uuid4,
      get_output_schema = EntityRecognitionResultSchema uuid4,
      infer = EntityRecognition_predict ner_pipeline\<rparr>"

subsection \<open>\<^verbatim>\<open>model_services/entity_linking.py\<close>\<close>

text \<open>
  \<^verbatim>\<open>wikipedia.page\<close> is a parameter. It returns a page (title, url, content) or raises
  \<^verbatim>\<open>DisambiguationError\<close> with its options, \<^verbatim>\<open>PageError\<close>, or something else. The content
  is cut to its first \<open>MAX_CONTENT_LENGTH\<close> characters, one \<open>char\<close> standing for one character
  of the Python string.
\<close>

datatype page_result =
    Page string string string
  | Disambiguation "string list"
  | NoPage
  | OtherException string

definition MAX_CONTENT_LENGTH :: nat where
  "MAX_CONTENT_LENGTH = 1024"

definition found_entry :: "string \<Rightarrow> string \<Rightarrow> string \<Rightarrow> string \<Rightarrow> dict" where
  "found_entry text title url content =
     [(''text'', JStr text), (''wikipedia_entries_found'', JBool True), (''title'', JStr title),
      (''url'', JStr url), (''content'', JStr (take MAX_CONTENT_LENGTH content @ ''...''))]"

definition not_found_entry :: "string \<Rightarrow> dict" where
  "not_found_entry text = [(''text'', JStr text), (''wikipedia_entries_found'', JBool False)]"

text \<open>
  The \<^verbatim>\<open>try\<close> statement of the loop body. An exception raised inside the handler of
  \<^verbatim>\<open>DisambiguationError\<close> (no first option, or the second lookup failing) is not caught by
  the clauses after it and leaves \<^verbatim>\<open>_predict\<close>.
\<close>

definition lookup_entry :: "(string \<Rightarrow> page_result) \<Rightarrow> string \<Rightarrow> error + dict" where
  "lookup_entry wikipedia_page text =
     (case wikipedia_page text of
        Page title url content \<Rightarrow> Inr (found_entry text title url content)
      | Disambiguation options \<Rightarrow>
          (case options of
             [] \<Rightarrow> Inl IndexError
           | first_option # other \<Rightarrow>
               (case wikipedia_page first_option of
                  Page title url content \<Rightarrow> Inr (found_entry text title url content)
                | Disambiguation options2 \<Rightarrow> Inl DisambiguationError
                | NoPage \<Rightarrow> Inl PageError
                | OtherException msg \<Rightarrow> Inl (InferenceError msg)))
      | NoPage \<Rightarrow> Inr (not_found_entry text)
      | OtherException msg \<Rightarrow> Inr (not_found_entry text))"

definition link_entity :: "(string \<Rightarrow> page_result) \<Rightarrow> pyval \<Rightarrow> error + pyval" where
  "link_entity wikipedia_page entity =
     and_then (as_model ''text'' entity) (\<lambda>e.
     and_then (str_attr e ''text'') (\<lambda>text.
     and_then (lookup_entry wikipedia_page text) (\<lambda>entry.
       case WikipediaEntity (JObj entry) of None \<Rightarrow> Inl ValidationError | Some v \<Rightarrow> Inr v)))"

definition EntityLinking_predict :: "(string \<Rightarrow> page_result) \<Rightarrow> model \<Rightarrow> error + model" where
  "EntityLinking_predict wikipedia_page model_input =
     and_then (list_attr model_input ''entities'') (\<lambda>entities.
     and_then (for_each (link_entity wikipedia_page) entities) (\<lambda>linked_entities.
     and_then (str_attr model_input ''id'') (\<lambda>ident.
     and_then (str_attr model_input ''text'') (\<lambda>text.
       Inr (''EntityLinkingResultSchema'',
            [(''id'', PyStr ident), (''text'', PyStr text),
             (''linked_entities'', PyList linked_entities)])))))"

definition EntityLinkingModelService :: "(string \<Rightarrow> page_result) \<Rightarrow> string \<Rightarrow> ModelService" where
  "EntityLinkingModelService wikipedia_page uuid4 =
     \<lparr>model_name = ''entity-linking'',
      get_input_schema = EntityLinkingInputSchema uuid4,
      get_output_schema = EntityLinkingResultSchema,
      infer = EntityLinking_predict wikipedia_page\<rparr>"

subsection \<open>\<^verbatim>\<open>model_services/summarization.py\<close>\<close>

text \<open>The loaded summarization pipeline is the parameter \<open>summarize_text\<close>.\<close>

definition summarize_entity :: "(string \<Rightarrow> string) \<Rightarrow> pyval \<Rightarrow> error + pyval" where
  "summarize_entity summarize_text entity =
     and_then (as_model ''wikipedia_entries_found'' entity) (\<lambda>e.
     and_then (attr e ''wikipedia_entries_found'') (\<lambda>found.
       if found = PyBool True then
         and_then (str_attr e ''content'') (\<lambda>content.
           (let entity_dict = AList.update ''summary'' (JStr (summarize_text content)) (model_dump e)
            in case model_validate SummarizedWikipediaEntity entity_dict of
                 Inl err \<Rightarrow> Inl err
               | Inr m \<Rightarrow> Inr (PyModel (fst m) (snd m))))
       else Inr entity))"

definition EntitySummarization_predict :: "(string \<Rightarrow> string) \<Rightarrow> model \<Rightarrow> error + model" where
  "EntitySummarization_predict summarize_text model_input =
     and_then (list_attr model_input ''linked_entities'') (\<lambda>linked_entities.
     and_then (for_each (summarize_entity summarize_text) linked_entities) (\<lambda>summarized_entities.
     and_then (str_attr model_input ''id'') (\<lambda>ident.
     and_then (str_attr model_input ''text'') (\<lambda>text.
       Inr (''EntitySummarizationResultSchema'',
            [(''id'', PyStr ident), (''text'', PyStr text),
             (''summarized_entities'', PyList summarized_entities)])))))"

definition EntitySummarizationModelService :: "(string \<Rightarrow> string) \<Rightarrow> ModelService" where
  "EntitySummarizationModelService summarize_text =
     \<lparr>model_name = ''entity-summarization'',
      get_input_schema = EntitySummarizationInputSchema,
      get_output_schema = EntitySummarizationResultSchema,
      infer = EntitySummarization_predict summarize_text\<rparr>"

text \<open>
  The class-level state once \<^verbatim>\<open>main.py\<close> has imported the three modules: the decorators
  run in the order summarization, linking (chained, then registered), recognition (chained,
  then registered).
\<close>

definition ModelRegistry_empty :: ModelRegistry where
  "ModelRegistry_empty = \<lparr>model_services = [], chains = []\<rparr>"

definition loaded_registry ::
  "(string \<Rightarrow> (string \<times> string) list) \<Rightarrow> (string \<Rightarrow> page_result) \<Rightarrow> (string \<Rightarrow> string) \<Rightarrow>
   string \<Rightarrow> ModelRegistry" where
  "loaded_registry ner_pipeline wikipedia_page summarize_text uuid4 =
     (let summarization = EntitySummarizationModelService summarize_text;
          linking = EntityLinkingModelService wikipedia_page uuid4;
          recognition = EntityRecognitionModelService ner_pipeline uuid4
      in register recognition (chain_to linking recognition
           (register linking (chain_to summarization linking
              (register summarization ModelRegistry_empty)))))"

definition world_init :: world where
  "world_init = \<lparr>pubsub_client = PubSubClient_init, logged = []\<rparr>"

section \<open>Histories of calls\<close>

text \<open>
  What a client of the core can do: register a callback, publish, call a service's
  \<^verbatim>\<open>predict\<close> directly, construct a registry over the client. \<open>run\<close> performs a list of
  such calls in order; the result of each call is dropped, its effects stay.
\<close>

datatype request =
    RegisterTopic string handler
  | Publish nat string dict string
  | CallPredict ModelService dict
  | NewRegistry ModelRegistry

fun perform :: "world \<Rightarrow> request \<Rightarrow> world" where
  "perform w (RegisterTopic topic callback) = register_topic topic callback w"
| "perform w (Publish fuel topic message message_id) = snd (publish fuel topic message message_id w)"
| "perform w (CallPredict s model_input) = w\<lparr>logged := snd (predict s model_input (logged w))\<rparr>"
| "perform w (NewRegistry cls) = snd (initialize_services cls w)"

definition run :: "request list \<Rightarrow> world" where
  "run requests = foldl perform world_init requests"

text \<open>
  \<^verbatim>\<open>publish\<close> writes its two records (lines 36 and 37) exactly when the callback has
  returned, right before it stores the response. \<open>published\<close> reads the successful publishes
  off a log, oldest first: the topic and the response of each.
\<close>

fun published :: "log_entry list \<Rightarrow> (string \<times> dict) list" where
  "published (LogMessagePublished message_id topic # LogResponse response # rest) =
     (topic, response) # published rest"
| "published (e # rest) = published rest"
| "published [] = []"

text \<open>
  The publishes that return in the course of one call of \<^verbatim>\<open>publish\<close>, in the order in which
  they return, each with its topic and the response it returned: first those of the publish
  that a chained callback makes after its prediction, then the call itself if it returns.
  With no depth left no callback runs and no publish returns.
\<close>

fun returned :: "nat \<Rightarrow> string \<Rightarrow> dict \<Rightarrow> string \<Rightarrow> world \<Rightarrow> (string \<times> dict) list" where
  "returned 0 topic message message_id w = []"
| "returned (Suc n) topic message message_id w =
     (case lookup_callback w topic of
        Inr (ChainedCallback s t) \<Rightarrow>
          (let w1 = log_info (LogChaining (model_name s) (model_name t) message) w
           in case predict s message (logged w1) of
                (Inr source_output, lg) \<Rightarrow>
                  returned n (trigger_topic t) source_output ''no-id'' (w1\<lparr>logged := lg\<rparr>)
              | (Inl e, lg) \<Rightarrow> [])
      | _ \<Rightarrow> []) @
     (case publish (Suc n) topic message message_id w of
        (Inr r, w') \<Rightarrow> [(topic, r)]
      | (Inl e, w') \<Rightarrow> [])"

text \<open>The publishes that return in the course of a history that starts in the world \<open>w\<close>.\<close>

fun successful_publishes :: "world \<Rightarrow> request list \<Rightarrow> (string \<times> dict) list" where
  "successful_publishes w [] = []"
| "successful_publishes w (request # requests) =
     (case request of
        Publish fuel topic message message_id \<Rightarrow> returned fuel topic message message_id w
      | _ \<Rightarrow> []) @
     successful_publishes (perform w request) requests"

text \<open>
  The topics a publish goes through when every callback on the way returns, in the order
  in which the publishes finish: the topic itself last, before it the route from the
  trigger topic of the target of its chained callback. \<open>completes\<close> says that the route
  ends at a plain \<^verbatim>\<open>predict\<close> within the given depth.
\<close>

fun route :: "nat \<Rightarrow> (string \<rightharpoonup> handler option) \<Rightarrow> string \<Rightarrow> string list" where
  "route 0 table topic = []"
| "route (Suc n) table topic =
     (case table topic of
        Some (Some (ChainedCallback s t)) \<Rightarrow> route n table (trigger_topic t) @ [topic]
      | _ \<Rightarrow> [topic])"

fun completes :: "nat \<Rightarrow> (string \<rightharpoonup> handler option) \<Rightarrow> string \<Rightarrow> bool" where
  "completes 0 table topic = False"
| "completes (Suc n) table topic =
     (case table topic of
        Some (Some (Predict s)) \<Rightarrow> True
      | Some (Some (ChainedCallback s t)) \<Rightarrow> completes n table (trigger_topic t)
      | _ \<Rightarrow> False)"

text \<open>The cache agrees with the log: each topic holds the response of its latest record.\<close>

definition cache_matches_log :: "world \<Rightarrow> bool" where
  "cache_matches_log w = (last_responses (pubsub_client w) = map_of (rev (published (logged w))))"

text \<open>An input that lacks a field the schema declares without a default.\<close>

definition missing_required :: "schema \<Rightarrow> dict \<Rightarrow> bool" where
  "missing_required s d =
     list_ex (\<lambda>(f, fi). default_value fi = None \<and> map_of d f = None) (schema_fields s)"

section \<open>Stand-ins for the external collaborators\<close>

text \<open>
  Concrete pipelines, used where a theorem is instantiated: a recogniser that finds one
  person (as in \<^verbatim>\<open>test_ner_model_predicts_entities\<close>), an encyclopedia with one page, one
  ambiguous title whose options have no page and nothing else, and a summarizer with a fixed
  answer.
\<close>

definition test_ner_pipeline :: "string \<Rightarrow> (string \<times> string) list" where
  "test_ner_pipeline text =
     (if text = ''Mercury'' then [(''Mercury'', ''MISC'')] else [(''Barack Obama'', ''PER'')])"

definition test_wikipedia_page :: "string \<Rightarrow> page_result" where
  "test_wikipedia_page title =
     (if title = ''Barack Obama'' then Page ''Barack Obama'' ''https://en.wikipedia.org/wiki/Barack_Obama'' ''Barack Obama is an American politician.''
      else if title = ''Mercury'' then Disambiguation [''Mercury (element)'', ''Mercury (planet)'']
      else NoPage)"

definition test_summarize_text :: "string \<Rightarrow> string" where
  "test_summarize_text text = ''An American politician.''"

definition test_registry :: ModelRegistry where
  "test_registry = loaded_registry test_ner_pipeline test_wikipedia_page test_summarize_text ''doc0''"

definition recognition :: ModelService where
  "recognition = EntityRecognitionModelService test_ner_pipeline ''doc0''"

definition linking :: ModelService where
  "linking = EntityLinkingModelService test_wikipedia_page ''doc0''"

definition summarization :: ModelService where
  "summarization = EntitySummarizationModelService test_summarize_text"

text \<open>The client after \<^verbatim>\<open>main.py\<close> has constructed its registry.\<close>

definition test_world :: world where
  "test_world = snd (initialize_services test_registry world_init)"

text \<open>
  Four messages (the first is the input of \<^verbatim>\<open>test_ner_model_predicts_entities\<close>), and a
  history: the construction, then two publishes.
\<close>

definition input_data :: dict where
  "input_data =
     [(''id'', JStr ''doc1''),
      (''text'', JStr ''Barack Obama visited Microsoft headquarters in Seattle.'')]"

definition mercury_request :: dict where
  "mercury_request = [(''text'', JStr ''Mercury'')]"

definition summarization_request :: dict where
  "summarization_request =
     [(''id'', JStr ''doc1''), (''text'', JStr ''Obama''), (''linked_entities'', JArr [])]"

definition linking_request :: dict where
  "linking_request =
     [(''id'', JStr ''doc2''), (''text'', JStr ''Barack Obama''),
      (''entities'', JArr [JObj [(''text'', JStr ''Barack Obama''), (''label'', JStr ''PER'')]])]"

definition test_requests :: "request list" where
  "test_requests =
     [NewRegistry test_registry,
      Publish 3 ''entity-summarization-trigger'' summarization_request ''m1'',
      Publish 3 ''entity-linking-trigger'' linking_request ''m2'']"

text \<open>
  A service that declares the schemas of the recognition service and whose inference step
  returns the validated input as it is.
\<close>

definition echo_service :: ModelService where
  "echo_service = recognition\<lparr>infer := Inr\<rparr>"

section \<open>Basic facts\<close>

subsection \<open>Unfolding \<open>publish\<close>, \<open>predict\<close> and \<open>register_topic\<close>\<close>

lemma publish_lookup_failed:
  "lookup_callback w topic = Inl e \<Longrightarrow> publish fuel topic message message_id w = (Inl e, w)"
  by (simp add: publish.simps)

lemma publish_no_fuel:
  "lookup_callback w topic = Inr callback \<Longrightarrow>
   publish 0 topic message message_id w = (Inl RecursionError, w)"
  by (simp add: publish.simps)

lemma publish_Suc:
  "lookup_callback w topic = Inr callback \<Longrightarrow>
   publish (Suc n) topic message message_id w =
     (case invoke (\<lambda>t m. publish n t m ''no-id'') callback message w of
        (Inl e, w1) \<Rightarrow> (Inl e, w1)
      | (Inr response, w1) \<Rightarrow> store_response topic message_id response w1)"
  by (simp add: publish.simps)

lemma lookup_callback_simps:
  "message_queues (pubsub_client w) topic = None \<Longrightarrow>
     lookup_callback w topic = Inl (ValueError (''Topic '' @ topic @ '' not registered.''))"
  "message_queues (pubsub_client w) topic = Some None \<Longrightarrow>
     lookup_callback w topic = Inl (ValueError (''No callback registered for topic '' @ topic @ ''.''))"
  "message_queues (pubsub_client w) topic = Some (Some cb) \<Longrightarrow> lookup_callback w topic = Inr cb"
  by (simp_all add: lookup_callback_def)

lemma register_topic_client:
  "pubsub_client (register_topic topic callback w) =
     (pubsub_client w)\<lparr>message_queues := (message_queues (pubsub_client w))(topic \<mapsto> Some callback)\<rparr>"
  by (simp add: register_topic_def set_callback_def log_info_def Let_def)

lemma register_topic_logged:
  "logged (register_topic topic callback w) =
     logged w @ [if topic \<in> dom (message_queues (pubsub_client w))
                 then LogSkippingRegistration topic else LogRegisteringTopic topic]"
  by (simp add: register_topic_def set_callback_def log_info_def Let_def)

lemma register_twice:
  "register_topic topic b (register_topic topic a w) =
     w\<lparr>pubsub_client := (pubsub_client w)\<lparr>message_queues := (message_queues (pubsub_client w))(topic \<mapsto> Some b)\<rparr>,
       logged := logged w @ [if topic \<in> dom (message_queues (pubsub_client w))
                 then LogSkippingRegistration topic else LogRegisteringTopic topic, LogSkippingRegistration topic]\<rparr>"
  by (simp add: register_topic_def set_callback_def log_info_def Let_def)

lemma predict_cases:
  "predict s m lg =
     (case model_validate (get_input_schema s) m of
        Inl e \<Rightarrow> (Inl e, lg @ [LogRunningPrediction (model_name s), LogModelInput m])
      | Inr x \<Rightarrow>
          (case infer s x of
             Inl e \<Rightarrow> (Inl e, lg @ [LogRunningPrediction (model_name s), LogModelInput m])
           | Inr y \<Rightarrow> (Inr (model_dump y),
               lg @ [LogRunningPrediction (model_name s), LogModelInput m, LogModelOutput (model_dump y)])))"
  by (simp add: predict_def Let_def split: sum.splits)

lemma fst_predict:
  "fst (predict s d lg) =
     (case model_validate (get_input_schema s) d of
        Inl e \<Rightarrow> Inl e
      | Inr x \<Rightarrow> (case infer s x of Inl e \<Rightarrow> Inl e | Inr y \<Rightarrow> Inr (model_dump y)))"
  by (simp add: predict_cases split: sum.splits)

lemma invoke_Predict:
  "invoke pub (Predict s) message w =
     (fst (predict s message (logged w)), w\<lparr>logged := snd (predict s message (logged w))\<rparr>)"
  by (simp split: prod.splits)

lemma missing_required_fails:
  "list_ex (\<lambda>(f, fi). default_value fi = None \<and> map_of d f = None) fs \<Longrightarrow> validate_fields fs d = None"
  by (induction fs) (auto simp: field_value_def split: option.splits)

lemma predict_missing_required:
  "missing_required (get_input_schema s) d \<Longrightarrow>
   predict s d lg = (Inl ValidationError, lg @ [LogRunningPrediction (model_name s), LogModelInput d])"
  by (simp add: predict_cases model_validate_def missing_required_def missing_required_fails)

subsection \<open>The records of publishes in a log\<close>

lemma published_snoc_other:
  "\<not> (\<exists>r. e = LogResponse r) \<Longrightarrow> published (l @ [e]) = published l"
  by (induction l rule: published.induct) (cases e; simp)+

lemma published_snoc_publish:
  "published (l @ [LogMessagePublished message_id topic, LogResponse r]) = published l @ [(topic, r)]"
  by (induction l rule: published.induct) simp_all

lemma published_predict:
  "published (snd (predict s m lg)) = published lg"
proof -
  have a: "published (lg @ [LogRunningPrediction (model_name s), LogModelInput m]) = published lg"
    using published_snoc_other [of "LogModelInput m" "lg @ [LogRunningPrediction (model_name s)]"]
      published_snoc_other [of "LogRunningPrediction (model_name s)" lg] by simp
  have b: "published (lg @ [LogRunningPrediction (model_name s), LogModelInput m, LogModelOutput y]) = published lg" for y
    using published_snoc_other [of "LogModelOutput y" "lg @ [LogRunningPrediction (model_name s), LogModelInput m]"] a
    by simp
  show ?thesis by (simp add: predict_cases a b split: sum.splits)
qed

subsection \<open>What a publish changes\<close>

text \<open>
  A callback that raises leaves the client as it was, if the publish it may call does.
\<close>

lemma invoke_error_keeps_client:
  assumes pub: "\<And>t m v e v'. pub t m v = (Inl e, v') \<Longrightarrow> pubsub_client v' = pubsub_client v"
    and run: "invoke pub h message w = (Inl e, w')"
  shows "pubsub_client w' = pubsub_client w"
proof (cases h)
  case (Predict s)
  with run show ?thesis by (auto split: prod.splits)
next
  case (ChainedCallback s t)
  with run show ?thesis
    by (auto simp: chained_callback_def Let_def log_info_def split: prod.splits sum.splits dest!: pub)
qed

text \<open>
  No publish touches the table of callbacks or logs a registration.
\<close>

lemma predict_registers_nothing:
  "(LogRegisteringTopic x \<in> set (snd (predict s m lg))) = (LogRegisteringTopic x \<in> set lg)"
  by (simp add: predict_cases split: sum.splits)

lemma invoke_registers_nothing:
  assumes pub: "\<And>t m v. message_queues (pubsub_client (snd (pub t m v))) = message_queues (pubsub_client v) \<and>
      (LogRegisteringTopic x \<in> set (logged (snd (pub t m v)))) = (LogRegisteringTopic x \<in> set (logged v))"
  shows "message_queues (pubsub_client (snd (invoke pub h message w))) = message_queues (pubsub_client w) \<and>
      (LogRegisteringTopic x \<in> set (logged (snd (invoke pub h message w)))) = (LogRegisteringTopic x \<in> set (logged w))"
proof (cases h)
  case (Predict s)
  then show ?thesis
    by (simp add: invoke_Predict predict_registers_nothing del: invoke.simps)
next
  case (ChainedCallback s t)
  let ?lg = "logged w @ [LogChaining (model_name s) (model_name t) message]"
  obtain r lg' where p: "predict s message ?lg = (r, lg')"
    by (cases "predict s message ?lg")
  with predict_registers_nothing [of x s message ?lg]
  have lg': "(LogRegisteringTopic x \<in> set lg') = (LogRegisteringTopic x \<in> set (logged w))" by simp
  show ?thesis
  proof (cases r)
    case (Inl e)
    with ChainedCallback p lg' show ?thesis
      by (simp add: chained_callback_def log_info_def Let_def)
  next
    case (Inr y)
    with ChainedCallback p lg' pub [of "trigger_topic t" y "w\<lparr>logged := lg'\<rparr>"] show ?thesis
      by (auto simp: chained_callback_def log_info_def Let_def split: prod.splits sum.splits)
  qed
qed

lemma publish_registers_nothing:
  "message_queues (pubsub_client (snd (publish fuel topic message message_id w))) =
     message_queues (pubsub_client w) \<and>
   (LogRegisteringTopic x \<in> set (logged (snd (publish fuel topic message message_id w)))) =
     (LogRegisteringTopic x \<in> set (logged w))"
proof (induction fuel arbitrary: topic message message_id w)
  case 0
  then show ?case
    by (cases "lookup_callback w topic") (simp_all add: publish_lookup_failed publish_no_fuel)
next
  case (Suc n)
  show ?case
  proof (cases "lookup_callback w topic")
    case (Inl e)
    then show ?thesis by (simp add: publish_lookup_failed)
  next
    case (Inr cb)
    from invoke_registers_nothing [of "\<lambda>t m. publish n t m ''no-id''" x cb message w] Suc.IH
    show ?thesis
      by (auto simp: publish_Suc [OF Inr] store_response_def log_info_def Let_def
          split: prod.splits sum.splits)
  qed
qed

lemma publish_keeps_table:
  "message_queues (pubsub_client (snd (publish fuel topic message message_id w))) =
     message_queues (pubsub_client w)"
  using publish_registers_nothing by blast

text \<open>
  A publish that returns has written its two records last and cached its response; one that raises
  has recorded no publish at all.
\<close>

lemma publish_success_recorded:
  "publish fuel topic message message_id w = (Inr r, w') \<Longrightarrow>
   \<exists>l. logged w' = l @ [LogMessagePublished message_id topic, LogResponse r] \<and>
       last_responses (pubsub_client w') topic = Some r"
proof (cases "lookup_callback w topic")
  case (Inl e)
  assume "publish fuel topic message message_id w = (Inr r, w')"
  with Inl show ?thesis by (simp add: publish_lookup_failed)
next
  case (Inr cb)
  assume a: "publish fuel topic message message_id w = (Inr r, w')"
  show ?thesis
  proof (cases fuel)
    case 0
    with a Inr show ?thesis by (simp add: publish_no_fuel)
  next
    case (Suc n)
    with a show ?thesis
      by (auto simp: publish_Suc [OF Inr] store_response_def log_info_def Let_def
          split: prod.splits sum.splits)
  qed
qed

lemma invoke_failure_not_recorded:
  assumes pub: "\<And>t m v e v'. pub t m v = (Inl e, v') \<Longrightarrow> published (logged v') = published (logged v)"
    and run: "invoke pub h message w = (Inl e, w')"
  shows "published (logged w') = published (logged w)"
proof (cases h)
  case (Predict s)
  with run show ?thesis
    using published_predict [of s message "logged w"]
    by (auto simp: invoke_Predict simp del: invoke.simps)
next
  case (ChainedCallback s t)
  let ?lg = "logged w @ [LogChaining (model_name s) (model_name t) message]"
  have lg: "published (snd (predict s message ?lg)) = published (logged w)"
    by (simp add: published_predict published_snoc_other)
  obtain r lg' where p: "predict s message ?lg = (r, lg')"
    by (cases "predict s message ?lg")
  with lg have lg': "published lg' = published (logged w)" by simp
  show ?thesis
  proof (cases r)
    case (Inl e1)
    with run ChainedCallback p lg' show ?thesis
      by (auto simp: chained_callback_def log_info_def Let_def)
  next
    case (Inr y)
    with run ChainedCallback p have "pub (trigger_topic t) y (w\<lparr>logged := lg'\<rparr>) = (Inl e, w')"
      by (auto simp: chained_callback_def log_info_def Let_def split: prod.splits sum.splits)
    from pub [OF this] lg' show ?thesis by simp
  qed
qed

lemma publish_failure_not_recorded:
  "publish fuel topic message message_id w = (Inl e, w') \<Longrightarrow>
   published (logged w') = published (logged w)"
proof (induction fuel arbitrary: topic message message_id w w' e)
  case 0
  then show ?case
    by (cases "lookup_callback w topic") (auto simp: publish_lookup_failed publish_no_fuel)
next
  case (Suc n)
  show ?case
  proof (cases "lookup_callback w topic")
    case (Inl a)
    with Suc.prems show ?thesis by (simp add: publish_lookup_failed)
  next
    case (Inr cb)
    obtain r w1 where inv: "invoke (\<lambda>t m. publish n t m ''no-id'') cb message w = (r, w1)"
      by (cases "invoke (\<lambda>t m. publish n t m ''no-id'') cb message w")
    show ?thesis
    proof (cases r)
      case (Inl e1)
      with Suc.prems Inr inv have "w' = w1" by (simp add: publish_Suc)
      moreover have "published (logged w1) = published (logged w)"
        using invoke_failure_not_recorded [of "\<lambda>t m. publish n t m ''no-id''" cb message w e1 w1]
          Suc.IH inv Inl by blast
      ultimately show ?thesis by simp
    next
      case (Inr resp)
      with Suc.prems \<open>lookup_callback w topic = Inr cb\<close> inv show ?thesis
        by (simp add: publish_Suc store_response_def Let_def)
    qed
  qed
qed

subsection \<open>The depth bound\<close>

text \<open>
  A publish that does not end in \<open>RecursionError\<close> does the same at every greater depth: the bound
  only decides where a chain that is too deep is cut.
\<close>

lemma invoke_more_fuel:
  assumes pub: "\<And>t m v. fst (pub t m v) \<noteq> Inl RecursionError \<Longrightarrow> pub' t m v = pub t m v"
    and run: "fst (invoke pub h message w) \<noteq> Inl RecursionError"
  shows "invoke pub' h message w = invoke pub h message w"
proof (cases h)
  case (Predict s)
  then show ?thesis by (simp add: invoke_Predict del: invoke.simps)
next
  case (ChainedCallback s t)
  let ?w1 = "log_info (LogChaining (model_name s) (model_name t) message) w"
  obtain r lg where p: "predict s message (logged ?w1) = (r, lg)"
    by (cases "predict s message (logged ?w1)")
  show ?thesis
  proof (cases r)
    case (Inl e)
    with ChainedCallback p show ?thesis by (simp add: chained_callback_def Let_def)
  next
    case (Inr y)
    with run ChainedCallback p
    have "fst (pub (trigger_topic t) y (?w1\<lparr>logged := lg\<rparr>)) \<noteq> Inl RecursionError"
      by (auto simp: chained_callback_def Let_def split: prod.splits sum.splits)
    from pub [OF this] Inr ChainedCallback p show ?thesis
      by (simp add: chained_callback_def Let_def)
  qed
qed

lemma publish_more_fuel:
  "fst (publish fuel topic message message_id w) \<noteq> Inl RecursionError \<Longrightarrow>
   publish (Suc fuel) topic message message_id w = publish fuel topic message message_id w"
proof (induction fuel arbitrary: topic message message_id w)
  case 0
  then show ?case
    by (cases "lookup_callback w topic") (auto simp: publish_lookup_failed publish_no_fuel)
next
  case (Suc n)
  show ?case
  proof (cases "lookup_callback w topic")
    case (Inl a)
    then show ?thesis by (simp add: publish_lookup_failed)
  next
    case (Inr cb)
    have "fst (invoke (\<lambda>t m. publish n t m ''no-id'') cb message w) \<noteq> Inl RecursionError"
      using Suc.prems
      by (auto simp: publish_Suc [OF Inr] store_response_def Let_def split: prod.splits sum.splits)
    then have "invoke (\<lambda>t m. publish (Suc n) t m ''no-id'') cb message w =
        invoke (\<lambda>t m. publish n t m ''no-id'') cb message w"
      using invoke_more_fuel [of "\<lambda>t m. publish n t m ''no-id''" "\<lambda>t m. publish (Suc n) t m ''no-id''"
          cb message w] Suc.IH by blast
    then show ?thesis by (simp add: publish_Suc [OF Inr])
  qed
qed

subsection \<open>Routes\<close>

text \<open>
  A publish that returns has gone through the route of its topic, and no topic is on that route twice:
  a chain that came back to a topic would go round forever.
\<close>

lemma route_fuel:
  "completes k table topic \<Longrightarrow> completes n table topic \<Longrightarrow> route k table topic = route n table topic"
proof (induction k arbitrary: n topic)
  case 0
  then show ?case by simp
next
  case (Suc k)
  then obtain n' where n: "n = Suc n'" by (cases n) auto
  with Suc show ?case
    by (auto split: option.splits handler.splits)
qed

lemma route_member:
  "completes n table start \<Longrightarrow> topic \<in> set (route n table start) \<Longrightarrow>
   \<exists>k. completes k table topic \<and> length (route k table topic) \<le> length (route n table start)"
proof (induction n arbitrary: start)
  case 0
  then show ?case by simp
next
  case (Suc n)
  show ?case
  proof (cases "topic = start")
    case True
    with Suc.prems(1) show ?thesis by blast
  next
    case False
    with Suc.prems obtain s t where h: "table start = Some (Some (ChainedCallback s t))"
      and c: "completes n table (trigger_topic t)"
      and m: "topic \<in> set (route n table (trigger_topic t))"
      by (auto split: option.splits handler.splits)
    from Suc.IH [OF c m] h show ?thesis by auto
  qed
qed

lemma route_last:
  "completes n table topic \<Longrightarrow> route n table topic \<noteq> [] \<and> last (route n table topic) = topic"
  by (cases n) (auto split: option.splits handler.splits)

lemma route_distinct:
  "completes n table topic \<Longrightarrow> distinct (route n table topic)"
proof (induction n arbitrary: topic)
  case 0
  then show ?case by simp
next
  case (Suc n)
  show ?case
  proof (cases "table topic")
    case None
    then show ?thesis by simp
  next
    case (Some ho)
    show ?thesis
    proof (cases ho)
      case None
      with Some show ?thesis by simp
    next
      case (Some h)
      show ?thesis
      proof (cases h)
        case (Predict s)
        with Some \<open>table topic = Some ho\<close> show ?thesis by simp
      next
        case (ChainedCallback s t)
        with Some \<open>table topic = Some ho\<close> Suc.prems
        have c: "completes n table (trigger_topic t)"
          and r: "route (Suc n) table topic = route n table (trigger_topic t) @ [topic]"
          by simp_all
        have "topic \<notin> set (route n table (trigger_topic t))"
        proof
          assume "topic \<in> set (route n table (trigger_topic t))"
          from route_member [OF c this] obtain k where k: "completes k table topic"
            and len: "length (route k table topic) \<le> length (route n table (trigger_topic t))"
            by blast
          from route_fuel [OF k Suc.prems] r len show False by simp
        qed
        with Suc.IH [OF c] r show ?thesis by simp
      qed
    qed
  qed
qed

lemma publish_route:
  "publish fuel topic message message_id w = (Inr r, w') \<Longrightarrow>
   completes fuel (message_queues (pubsub_client w)) topic \<and>
   (\<exists>rs. published (logged w') = published (logged w) @ rs \<and>
      map fst rs = route fuel (message_queues (pubsub_client w)) topic)"
proof (induction fuel arbitrary: topic message message_id w w' r)
  case 0
  then show ?case
    by (cases "lookup_callback w topic") (auto simp: publish_lookup_failed publish_no_fuel)
next
  case (Suc n)
  let ?table = "message_queues (pubsub_client w)"
  show ?case
  proof (cases "lookup_callback w topic")
    case (Inl e)
    with Suc.prems show ?thesis by (simp add: publish_lookup_failed)
  next
    case (Inr cb)
    then have tab: "?table topic = Some (Some cb)"
      by (auto simp: lookup_callback_def split: option.splits)
    from Suc.prems obtain resp w1 where
      inv: "invoke (\<lambda>t m. publish n t m ''no-id'') cb message w = (Inr resp, w1)"
      and fin: "store_response topic message_id resp w1 = (Inr r, w')"
      by (auto simp: publish_Suc [OF Inr] split: prod.splits sum.splits)
    from fin have w': "published (logged w') = published (logged w1) @ [(topic, r)]"
      by (auto simp: store_response_def log_info_def Let_def published_snoc_publish)
    show ?thesis
    proof (cases cb)
      case (Predict s)
      with inv have "published (logged w1) = published (logged w)"
        using published_predict [of s message "logged w"]
        by (auto simp: invoke_Predict simp del: invoke.simps)
      with w' tab Predict show ?thesis by simp
    next
      case (ChainedCallback s t)
      let ?lg = "logged w @ [LogChaining (model_name s) (model_name t) message]"
      obtain q lg' where p: "predict s message ?lg = (q, lg')"
        by (cases "predict s message ?lg")
      have lg': "published lg' = published (logged w)"
        using published_predict [of s message ?lg] p by (simp add: published_snoc_other)
      from inv ChainedCallback p obtain y z where
        nested: "publish n (trigger_topic t) y ''no-id'' (w\<lparr>logged := lg'\<rparr>) = (Inr z, w1)"
        by (auto simp: chained_callback_def log_info_def Let_def split: prod.splits sum.splits)
      from Suc.IH [OF nested] lg' obtain rs where
        c: "completes n ?table (trigger_topic t)"
        and rs: "published (logged w1) = published (logged w) @ rs"
        "map fst rs = route n ?table (trigger_topic t)"
        by auto
      from c rs w' tab ChainedCallback show ?thesis by simp
    qed
  qed
qed

lemma publish_each_topic_once:
  assumes "publish fuel topic message message_id w = (Inr r, w')"
  shows "\<exists>rs. published (logged w') = published (logged w) @ rs \<and> distinct (map fst rs) \<and>
     rs \<noteq> [] \<and> last rs = (topic, r)"
proof -
  from publish_route [OF assms] obtain rs where
    c: "completes fuel (message_queues (pubsub_client w)) topic"
    and rs: "published (logged w') = published (logged w) @ rs"
    "map fst rs = route fuel (message_queues (pubsub_client w)) topic"
    by blast
  from publish_success_recorded [OF assms] obtain l where
    "logged w' = l @ [LogMessagePublished message_id topic, LogResponse r]" by blast
  then have "published (logged w') = published l @ [(topic, r)]"
    by (simp add: published_snoc_publish)
  moreover from route_last [OF c] rs(2) have "rs \<noteq> []" by auto
  ultimately have "rs \<noteq> [] \<and> last rs = (topic, r)"
    using rs(1) by (cases rs rule: rev_cases) auto
  moreover from route_distinct [OF c] rs(2) have "distinct (map fst rs)" by simp
  ultimately show ?thesis using rs(1) by blast
qed

lemma one_record_of_last_topic:
  assumes "distinct (map fst rs)" and "rs \<noteq> []" and "fst (last rs) = topic"
  shows "length (filter (\<lambda>p. fst p = topic) rs) = 1"
proof -
  from assms(2) obtain ps p where rs: "rs = ps @ [p]" by (cases rs rule: rev_cases) auto
  with assms(1,3) have "topic \<notin> fst ` set ps" by auto
  then have "filter (\<lambda>q. fst q = topic) ps = []"
    by (force simp: filter_empty_conv)
  with rs assms(3) show ?thesis by simp
qed

subsection \<open>The registry\<close>

lemma select_callback_error:
  "select_callback chs instances n s = Inl e \<Longrightarrow> \<exists>t. e = KeyError t"
  by (auto simp: select_callback_def split: option.splits)

lemma setup_topics_fails:
  "(n, s) \<in> set rest \<Longrightarrow> select_callback chs instances n s = Inl e \<Longrightarrow>
   \<exists>t. fst (setup_topics chs instances rest w) = Inl (KeyError t)"
proof (induction chs instances rest w rule: setup_topics.induct)
  case (1 chs instances w)
  then show ?case by simp
next
  case (2 chs instances service_name service rest w)
  show ?case
  proof (cases "select_callback chs instances service_name service")
    case (Inl a)
    then show ?thesis using select_callback_error [OF Inl] by auto
  next
    case (Inr cb)
    with 2 show ?thesis by auto
  qed
qed

lemma update_keys: "fst ` set (AList.update k v al) = insert k (fst ` set al)"
  by (induction al) auto

lemma foldl_update_keys:
  "fst ` set (foldl (\<lambda>acc service. AList.update (model_name service) service acc) acc xs) =
     fst ` set acc \<union> model_name ` set xs"
  by (induction xs arbitrary: acc) (auto simp: update_keys)

lemma create_instances_keys:
  "fst ` set (create_instances catalog) = model_name ` snd ` set catalog"
  by (simp add: create_instances_def foldl_update_keys image_image)

lemma foldl_update_names:
  "\<forall>(k, s) \<in> set acc. k = model_name s \<Longrightarrow>
   \<forall>(k, s) \<in> set (foldl (\<lambda>acc service. AList.update (model_name service) service acc) acc xs). k = model_name s"
proof (induction xs arbitrary: acc)
  case Nil
  then show ?case by simp
next
  case (Cons x xs)
  have "\<forall>(k, s) \<in> set (AList.update (model_name x) x acc). k = model_name s"
    using Cons.prems by (induction acc) auto
  from Cons.IH [OF this] show ?case by simp
qed

lemma create_instances_names:
  "(n, s) \<in> set (create_instances catalog) \<Longrightarrow> n = model_name s"
  using foldl_update_names [of "[]" "map snd catalog"] by (auto simp: create_instances_def)

lemma foldl_update_distinct:
  "distinct (map fst acc) \<Longrightarrow>
   distinct (map fst (foldl (\<lambda>acc service. AList.update (model_name service) service acc) acc xs))"
  by (induction xs arbitrary: acc) (simp_all add: AList.distinct_update)

lemma create_instances_topics_distinct:
  "distinct (map (\<lambda>(n, s). trigger_topic s) (create_instances catalog))"
proof -
  have d: "distinct (map fst (create_instances catalog))"
    by (simp add: create_instances_def foldl_update_distinct)
  have "map (\<lambda>(n, s). trigger_topic s) (create_instances catalog) =
      map (\<lambda>n. n @ ''-trigger'') (map fst (create_instances catalog))"
    by (auto simp: trigger_topic_def dest: create_instances_names)
  with d show ?thesis by (simp add: distinct_map inj_on_def)
qed

lemma snd_initialize_services:
  "snd (initialize_services cls w) =
     snd (setup_topics (chains cls) (create_instances (model_services cls))
            (create_instances (model_services cls)) w)"
  by (simp add: initialize_services_def Let_def split: prod.splits sum.splits)

text \<open>
  After a construction that succeeded, the trigger topic of every instance is registered with the
  callback selected for it.
\<close>

lemma setup_topics_frame:
  "topic \<notin> trigger_topic ` snd ` set rest \<Longrightarrow>
   message_queues (pubsub_client (snd (setup_topics chs instances rest w))) topic =
     message_queues (pubsub_client w) topic"
  by (induction chs instances rest w rule: setup_topics.induct)
    (auto simp: register_topic_client split: sum.splits)

lemma setup_topics_registers:
  "setup_topics chs instances rest w = (Inr u, w') \<Longrightarrow>
   distinct (map (\<lambda>(n, s). trigger_topic s) rest) \<Longrightarrow> (n, s) \<in> set rest \<Longrightarrow>
   \<exists>h. select_callback chs instances n s = Inr h \<and>
       message_queues (pubsub_client w') (trigger_topic s) = Some (Some h)"
proof (induction chs instances rest w rule: setup_topics.induct)
  case (1 chs instances w)
  then show ?case by simp
next
  case (2 chs instances service_name service rest w)
  from "2.prems"(1) obtain cb where cb: "select_callback chs instances service_name service = Inr cb"
    by (cases "select_callback chs instances service_name service") auto
  let ?w1 = "register_topic (trigger_topic service) cb w"
  from "2.prems"(1) cb have run: "setup_topics chs instances rest ?w1 = (Inr u, w')" by simp
  show ?case
  proof (cases "(n, s) \<in> set rest")
    case True
    from "2.IH" [OF cb run _ True] "2.prems"(2) show ?thesis by simp
  next
    case False
    with "2.prems"(3) have eq: "n = service_name" "s = service" by auto
    have "trigger_topic service \<notin> trigger_topic ` snd ` set rest"
      using "2.prems"(2) by (force simp: image_iff)
    from setup_topics_frame [OF this, of chs instances ?w1] run
    have "message_queues (pubsub_client w') (trigger_topic service) = Some (Some cb)"
      by (simp add: register_topic_client)
    with cb eq show ?thesis by simp
  qed
qed

lemma construction_registers_callbacks:
  assumes "initialize_services cls w = (Inr instances, w')" and "(n, s) \<in> set instances"
  shows "\<exists>h. select_callback (chains cls) instances n s = Inr h \<and>
    message_queues (pubsub_client w') (trigger_topic s) = Some (Some h)"
proof -
  let ?inst = "create_instances (model_services cls)"
  from assms(1) have i: "instances = ?inst"
    and run: "setup_topics (chains cls) ?inst ?inst w = (Inr (), w')"
    by (auto simp: initialize_services_def Let_def split: prod.splits sum.splits)
  from setup_topics_registers [OF run create_instances_topics_distinct] assms(2) i
  show ?thesis by simp
qed

subsection \<open>Registered topics and the log\<close>

text \<open>
  On a client that started fresh, the topics in the table are those whose registration the log records.
\<close>

lemma register_topic_logs_new_topics:
  "(message_queues (pubsub_client w) x = None) = (LogRegisteringTopic x \<notin> set (logged w)) \<Longrightarrow>
   (message_queues (pubsub_client (register_topic topic callback w)) x = None) =
     (LogRegisteringTopic x \<notin> set (logged (register_topic topic callback w)))"
  by (auto simp: register_topic_client register_topic_logged)

lemma setup_topics_logs_new_topics:
  "(message_queues (pubsub_client w) x = None) = (LogRegisteringTopic x \<notin> set (logged w)) \<Longrightarrow>
   (message_queues (pubsub_client (snd (setup_topics chs instances rest w))) x = None) =
     (LogRegisteringTopic x \<notin> set (logged (snd (setup_topics chs instances rest w))))"
proof (induction chs instances rest w rule: setup_topics.induct)
  case (1 chs instances w)
  then show ?case by simp
next
  case (2 chs instances service_name service rest w)
  show ?case
  proof (cases "select_callback chs instances service_name service")
    case (Inl e)
    with "2.prems" show ?thesis by simp
  next
    case (Inr cb)
    from "2.IH" [OF Inr register_topic_logs_new_topics [OF "2.prems"]] Inr show ?thesis by simp
  qed
qed

lemma perform_logs_new_topics:
  assumes "(message_queues (pubsub_client w) x = None) = (LogRegisteringTopic x \<notin> set (logged w))"
  shows "(message_queues (pubsub_client (perform w request)) x = None) =
     (LogRegisteringTopic x \<notin> set (logged (perform w request)))"
proof (cases request)
  case (RegisterTopic topic callback)
  with register_topic_logs_new_topics [OF assms] show ?thesis by simp
next
  case (Publish fuel topic message message_id)
  with assms publish_registers_nothing [of fuel topic message message_id w x] show ?thesis by simp
next
  case (CallPredict s model_input)
  with assms show ?thesis by (simp add: predict_registers_nothing)
next
  case (NewRegistry cls)
  with setup_topics_logs_new_topics [OF assms] show ?thesis by (simp add: snd_initialize_services)
qed

lemma foldl_perform_logs_new_topics:
  "(message_queues (pubsub_client w) x = None) = (LogRegisteringTopic x \<notin> set (logged w)) \<Longrightarrow>
   (message_queues (pubsub_client (foldl perform w requests)) x = None) =
     (LogRegisteringTopic x \<notin> set (logged (foldl perform w requests)))"
  by (induction requests arbitrary: w) (simp_all add: perform_logs_new_topics)

lemma never_registered_iff_not_in_table:
  "(message_queues (pubsub_client (run requests)) topic = None) =
     (LogRegisteringTopic topic \<notin> set (logged (run requests)))"
  unfolding run_def
  by (rule foldl_perform_logs_new_topics) (simp add: world_init_def PubSubClient_init_def)

subsection \<open>The cache and the log\<close>

lemma cache_matches_log_invoke:
  assumes pub: "\<And>t m v. cache_matches_log v \<Longrightarrow> cache_matches_log (snd (pub t m v))"
    and w: "cache_matches_log w"
  shows "cache_matches_log (snd (invoke pub h message w))"
proof (cases h)
  case (Predict s)
  with w show ?thesis
    by (simp add: invoke_Predict cache_matches_log_def published_predict del: invoke.simps)
next
  case (ChainedCallback s t)
  let ?w1 = "log_info (LogChaining (model_name s) (model_name t) message) w"
  have w1: "cache_matches_log ?w1"
    using w by (simp add: cache_matches_log_def log_info_def published_snoc_other)
  obtain r lg where p: "predict s message (logged ?w1) = (r, lg)"
    by (cases "predict s message (logged ?w1)")
  have w2: "cache_matches_log (?w1\<lparr>logged := lg\<rparr>)"
    using w1 published_predict [of s message "logged ?w1"] p
    by (simp add: cache_matches_log_def)
  show ?thesis
  proof (cases r)
    case (Inl e)
    with ChainedCallback p w2 show ?thesis by (simp add: chained_callback_def Let_def)
  next
    case (Inr y)
    with ChainedCallback p pub [OF w2, of "trigger_topic t" y] show ?thesis
      by (auto simp: chained_callback_def Let_def split: prod.splits sum.splits)
  qed
qed

lemma cache_matches_log_store:
  "cache_matches_log w \<Longrightarrow> cache_matches_log (snd (store_response topic message_id r w))"
  by (simp add: cache_matches_log_def store_response_def log_info_def Let_def published_snoc_publish)

lemma cache_matches_log_publish:
  "cache_matches_log w \<Longrightarrow> cache_matches_log (snd (publish fuel topic message message_id w))"
proof (induction fuel arbitrary: topic message message_id w)
  case 0
  then show ?case
    by (cases "lookup_callback w topic") (simp_all add: publish_lookup_failed publish_no_fuel)
next
  case (Suc n)
  show ?case
  proof (cases "lookup_callback w topic")
    case (Inl e)
    with Suc.prems show ?thesis by (simp add: publish_lookup_failed)
  next
    case (Inr cb)
    have "cache_matches_log (snd (invoke (\<lambda>t m. publish n t m ''no-id'') cb message w))"
      using cache_matches_log_invoke [of "\<lambda>t m. publish n t m ''no-id''" w cb message] Suc by blast
    then show ?thesis
      by (auto simp: publish_Suc [OF Inr] cache_matches_log_store split: prod.splits sum.splits)
  qed
qed

lemma cache_matches_log_register:
  "cache_matches_log w \<Longrightarrow> cache_matches_log (register_topic topic callback w)"
  by (simp add: cache_matches_log_def register_topic_client register_topic_logged published_snoc_other)

lemma cache_matches_log_setup:
  "cache_matches_log w \<Longrightarrow> cache_matches_log (snd (setup_topics chs instances rest w))"
  by (induction chs instances rest w rule: setup_topics.induct)
    (auto simp: cache_matches_log_register split: sum.splits)

lemma cache_matches_log_perform:
  "cache_matches_log w \<Longrightarrow> cache_matches_log (perform w request)"
proof (cases request)
  case (CallPredict s model_input)
  assume "cache_matches_log w"
  with CallPredict show ?thesis by (simp add: cache_matches_log_def published_predict)
qed (simp_all add: cache_matches_log_register cache_matches_log_publish
      snd_initialize_services cache_matches_log_setup)

lemma cache_matches_log_foldl:
  "cache_matches_log w \<Longrightarrow> cache_matches_log (foldl perform w requests)"
  by (induction requests arbitrary: w) (simp_all add: cache_matches_log_perform)

lemma cache_matches_log_run: "cache_matches_log (run requests)"
  unfolding run_def
  by (rule cache_matches_log_foldl)
    (simp add: cache_matches_log_def world_init_def PubSubClient_init_def)

lemma map_of_rev_last:
  "t \<notin> fst ` set qs \<Longrightarrow> map_of (rev (ps @ (t, r) # qs)) t = Some r"
  by (simp add: map_add_Some_iff map_of_eq_None_iff)

text \<open>
  The publish records of the log are the publishes that returned: what \<open>returned\<close> lists from
  the results of \<^verbatim>\<open>publish\<close> is what the calls have written to the log, and no other call
  writes such a record.
\<close>

lemma setup_topics_records_nothing:
  "published (logged (snd (setup_topics chs instances rest w))) = published (logged w)"
  by (induction chs instances rest w rule: setup_topics.induct)
    (auto simp: register_topic_logged published_snoc_other split: sum.splits)

lemma published_returned:
  "published (logged (snd (publish fuel topic message message_id w))) =
     published (logged w) @ returned fuel topic message message_id w"
proof (induction fuel arbitrary: topic message message_id w)
  case 0
  then show ?case
    by (cases "lookup_callback w topic") (simp_all add: publish_lookup_failed publish_no_fuel)
next
  case (Suc n)
  show ?case
  proof (cases "lookup_callback w topic")
    case (Inl e)
    then show ?thesis by (simp add: publish_lookup_failed)
  next
    case (Inr cb)
    note unfold = publish_Suc [OF Inr, of n message message_id]
    show ?thesis
    proof (cases cb)
      case (Predict s)
      have "published (snd (predict s message (logged w))) = published (logged w)"
        by (rule published_predict)
      with Inr Predict show ?thesis
        by (auto simp: unfold invoke_Predict store_response_def log_info_def Let_def
            published_snoc_publish simp del: invoke.simps split: prod.splits sum.splits)
    next
      case (ChainedCallback s t)
      let ?w1 = "log_info (LogChaining (model_name s) (model_name t) message) w"
      obtain q lg where p: "predict s message (logged ?w1) = (q, lg)"
        by (cases "predict s message (logged ?w1)")
      have lg: "published lg = published (logged w)"
        using published_predict [of s message "logged ?w1"] p
        by (simp add: log_info_def published_snoc_other)
      show ?thesis
      proof (cases q)
        case (Inl e)
        with Inr ChainedCallback p lg show ?thesis
          by (simp add: unfold chained_callback_def Let_def)
      next
        case (Inr y)
        let ?w2 = "?w1\<lparr>logged := lg\<rparr>"
        obtain q2 w3 where nested: "publish n (trigger_topic t) y ''no-id'' ?w2 = (q2, w3)"
          by (cases "publish n (trigger_topic t) y ''no-id'' ?w2")
        from Suc.IH [of "trigger_topic t" y "''no-id''" ?w2] nested lg
        have w3: "published (logged w3) =
            published (logged w) @ returned n (trigger_topic t) y ''no-id'' ?w2"
          by simp
        from \<open>lookup_callback w topic = Inr cb\<close> ChainedCallback p Inr nested w3 show ?thesis
          by (cases q2)
            (simp_all add: unfold chained_callback_def Let_def store_response_def log_info_def
              published_snoc_publish)
      qed
    qed
  qed
qed

lemma published_perform:
  "published (logged (perform w request)) =
     published (logged w) @
     (case request of
        Publish fuel topic message message_id \<Rightarrow> returned fuel topic message message_id w
      | _ \<Rightarrow> [])"
  by (cases request)
    (simp_all add: register_topic_logged published_snoc_other published_returned
      published_predict snd_initialize_services setup_topics_records_nothing)

lemma published_foldl:
  "published (logged (foldl perform w requests)) =
     published (logged w) @ successful_publishes w requests"
  by (induction requests arbitrary: w) (simp_all add: published_perform)

lemma published_run:
  "published (logged (run requests)) = successful_publishes world_init requests"
  by (simp add: run_def published_foldl world_init_def)

section \<open>The services of the repository return what they declare\<close>

text \<open>
  For each of the three services, the dump of the model its inference step returns is accepted by the
  output schema it declares, and validates to that same model.
\<close>

lemmas schema_defs =
  EntityRecognitionInputSchema_def EntityRecognitionResultSchema_def EntityLinkingInputSchema_def
  EntityLinkingResultSchema_def EntitySummarizationInputSchema_def EntitySummarizationResultSchema_def
  Entity_def WikipediaEntityFound_def SummarizedWikipediaEntity_def WikipediaEntityNotFound_def
  WikipediaEntity_def v_str_def v_literal_def v_list_def v_model_def required_def with_default_def
  model_validate_def field_value_def model_dump_def

lemma those_map_Some:
  "(\<And>x. x \<in> set xs \<Longrightarrow> f x = Some (g x)) \<Longrightarrow> those (map f xs) = Some (map g xs)"
  by (induction xs) simp_all

lemma those_results:
  "those (map f xs) = Some ys \<Longrightarrow> y \<in> set ys \<Longrightarrow> \<exists>x \<in> set xs. f x = Some y"
  by (induction xs arbitrary: ys) (auto split: option.splits)

lemma for_each_results:
  "for_each f xs = Inr ys \<Longrightarrow> y \<in> set ys \<Longrightarrow> \<exists>x \<in> set xs. f x = Inr y"
  by (induction xs arbitrary: ys) (auto simp: and_then_def split: sum.splits)

lemma v_str_Some: "v_str x = Some v \<Longrightarrow> \<exists>s. v = PyStr s"
  by (auto simp: v_str_def split: json.splits)

lemma v_literal_Some: "v_literal b x = Some v \<Longrightarrow> v = PyBool b"
  by (auto simp: v_literal_def split: json.splits if_splits)

lemma v_model_Some:
  "v_model s x = Some v \<Longrightarrow>
   \<exists>d vs. x = JObj d \<and> validate_fields (schema_fields s) d = Some vs \<and> v = PyModel (schema_name s) vs"
  by (auto simp: v_model_def model_validate_def split: json.splits option.splits sum.splits)

lemma required_field:
  "field_value (required v) raw = Some r \<Longrightarrow> \<exists>x. raw = Some x \<and> v x = Some r"
  by (cases raw) (simp_all add: field_value_def required_def)

lemma recognition_conforms:
  assumes "EntityRecognition_predict ner_pipeline x = Inr y"
  shows "model_validate (EntityRecognitionResultSchema uuid4) (model_dump y) = Inr y"
proof -
  let ?mk = "\<lambda>(word, entity_group).
     PyModel ''Entity'' [(''text'', PyStr word), (''label'', PyStr entity_group)]"
  from assms obtain ident body where y: "y = (''EntityRecognitionResultSchema'',
      [(''id'', PyStr ident), (''text'', PyStr body), (''entities'', PyList (map ?mk (ner_pipeline body)))])"
    by (auto simp: EntityRecognition_predict_def and_then_def Let_def split: sum.splits)
  have "those (map (\<lambda>e. v_model Entity (dump_value (?mk e))) (ner_pipeline body)) =
      Some (map ?mk (ner_pipeline body))"
    by (rule those_map_Some) (auto simp: schema_defs)
  then show ?thesis
    unfolding y by (simp add: schema_defs comp_def)
qed

lemma lookup_entry_forms:
  "lookup_entry wikipedia_page t = Inr entry \<Longrightarrow>
   (\<exists>title url content. entry = found_entry t title url content) \<or> entry = not_found_entry t"
  by (auto simp: lookup_entry_def split: page_result.splits list.splits)

lemma WikipediaEntity_found:
  "WikipediaEntity (JObj (found_entry t title url content)) =
     Some (PyModel ''WikipediaEntityFound''
       [(''text'', PyStr t), (''wikipedia_entries_found'', PyBool True), (''title'', PyStr title),
        (''url'', PyStr url), (''content'', PyStr (take MAX_CONTENT_LENGTH content @ ''...''))])"
  by (simp add: found_entry_def schema_defs)

lemma WikipediaEntity_not_found:
  "WikipediaEntity (JObj (not_found_entry t)) =
     Some (PyModel ''WikipediaEntityNotFound''
       [(''text'', PyStr t), (''wikipedia_entries_found'', PyBool False)])"
  by (simp add: not_found_entry_def schema_defs)

lemma WikipediaEntity_dump_found:
  "WikipediaEntity (dump_value (PyModel ''WikipediaEntityFound''
       [(''text'', PyStr a), (''wikipedia_entries_found'', PyBool True), (''title'', PyStr b),
        (''url'', PyStr c), (''content'', PyStr d)])) =
     Some (PyModel ''WikipediaEntityFound''
       [(''text'', PyStr a), (''wikipedia_entries_found'', PyBool True), (''title'', PyStr b),
        (''url'', PyStr c), (''content'', PyStr d)])"
  by (simp add: schema_defs)

lemma WikipediaEntity_dump_not_found:
  "WikipediaEntity (dump_value (PyModel ''WikipediaEntityNotFound''
       [(''text'', PyStr a), (''wikipedia_entries_found'', PyBool False)])) =
     Some (PyModel ''WikipediaEntityNotFound''
       [(''text'', PyStr a), (''wikipedia_entries_found'', PyBool False)])"
  by (simp add: schema_defs)

lemma link_entity_conforms:
  assumes "link_entity wikipedia_page e = Inr v"
  shows "WikipediaEntity (dump_value v) = Some v"
proof -
  from assms obtain t entry where entry: "lookup_entry wikipedia_page t = Inr entry"
    and v: "WikipediaEntity (JObj entry) = Some v"
    by (auto simp: link_entity_def and_then_def split: sum.splits option.splits)
  from lookup_entry_forms [OF entry] show ?thesis
  proof
    assume "\<exists>title url content. entry = found_entry t title url content"
    then obtain title url content where "entry = found_entry t title url content" by blast
    with v have "v = PyModel ''WikipediaEntityFound''
       [(''text'', PyStr t), (''wikipedia_entries_found'', PyBool True), (''title'', PyStr title),
        (''url'', PyStr url), (''content'', PyStr (take MAX_CONTENT_LENGTH content @ ''...''))]"
      by (simp add: WikipediaEntity_found)
    then show ?thesis by (simp only: WikipediaEntity_dump_found)
  next
    assume "entry = not_found_entry t"
    with v have "v = PyModel ''WikipediaEntityNotFound''
       [(''text'', PyStr t), (''wikipedia_entries_found'', PyBool False)]"
      by (simp add: WikipediaEntity_not_found)
    then show ?thesis by (simp only: WikipediaEntity_dump_not_found)
  qed
qed

lemma linking_conforms:
  assumes "EntityLinking_predict wikipedia_page x = Inr y"
  shows "model_validate EntityLinkingResultSchema (model_dump y) = Inr y"
proof -
  from assms obtain ident body es vs where
    vs: "for_each (link_entity wikipedia_page) es = Inr vs"
    and y: "y = (''EntityLinkingResultSchema'',
      [(''id'', PyStr ident), (''text'', PyStr body), (''linked_entities'', PyList vs)])"
    by (auto simp: EntityLinking_predict_def and_then_def split: sum.splits)
  have "those (map (\<lambda>v. WikipediaEntity (dump_value v)) vs) = Some (map (\<lambda>v. v) vs)"
  proof (rule those_map_Some)
    fix v assume "v \<in> set vs"
    from for_each_results [OF vs this] show "WikipediaEntity (dump_value v) = Some v"
      by (auto dest: link_entity_conforms)
  qed
  then show ?thesis
    unfolding y
    by (simp add: EntityLinkingResultSchema_def model_validate_def field_value_def model_dump_def
        required_def v_str_def v_list_def comp_def)
qed

lemma found_forms:
  assumes "v_model WikipediaEntityFound j = Some e"
  shows "\<exists>a b c d. e = PyModel ''WikipediaEntityFound''
       [(''text'', PyStr a), (''wikipedia_entries_found'', PyBool True), (''title'', PyStr b),
        (''url'', PyStr c), (''content'', PyStr d)]"
proof -
  from v_model_Some [OF assms] obtain vs d
    where vs: "validate_fields (schema_fields WikipediaEntityFound) d = Some vs"
      and e: "e = PyModel (schema_name WikipediaEntityFound) vs" by blast
  from vs obtain r1 r2 r3 r4 r5 where
    f: "field_value (required v_str) (map_of d ''text'') = Some r1"
      "field_value (required (v_literal True)) (map_of d ''wikipedia_entries_found'') = Some r2"
      "field_value (required v_str) (map_of d ''title'') = Some r3"
      "field_value (required v_str) (map_of d ''url'') = Some r4"
      "field_value (required v_str) (map_of d ''content'') = Some r5"
    and vs': "vs = [(''text'', r1), (''wikipedia_entries_found'', r2), (''title'', r3),
       (''url'', r4), (''content'', r5)]"
    by (auto simp: WikipediaEntityFound_def split: option.splits)
  from f show ?thesis
    unfolding e vs'
    by (auto simp: WikipediaEntityFound_def dest!: required_field v_str_Some v_literal_Some)
qed

lemma not_found_forms:
  assumes "v_model WikipediaEntityNotFound j = Some e"
  shows "\<exists>a. e = PyModel ''WikipediaEntityNotFound''
       [(''text'', PyStr a), (''wikipedia_entries_found'', PyBool False)]"
proof -
  from v_model_Some [OF assms] obtain vs d
    where vs: "validate_fields (schema_fields WikipediaEntityNotFound) d = Some vs"
      and e: "e = PyModel (schema_name WikipediaEntityNotFound) vs" by blast
  from vs obtain r1 r2 where
    f: "field_value (required v_str) (map_of d ''text'') = Some r1"
      "field_value (required (v_literal False)) (map_of d ''wikipedia_entries_found'') = Some r2"
    and vs': "vs = [(''text'', r1), (''wikipedia_entries_found'', r2)]"
    by (auto simp: WikipediaEntityNotFound_def split: option.splits)
  from f show ?thesis
    unfolding e vs'
    by (auto simp: WikipediaEntityNotFound_def dest!: required_field v_str_Some v_literal_Some)
qed

lemma WikipediaEntity_forms:
  "WikipediaEntity j = Some e \<Longrightarrow>
   (\<exists>a b c d. e = PyModel ''WikipediaEntityFound''
       [(''text'', PyStr a), (''wikipedia_entries_found'', PyBool True), (''title'', PyStr b),
        (''url'', PyStr c), (''content'', PyStr d)]) \<or>
   (\<exists>a. e = PyModel ''WikipediaEntityNotFound''
       [(''text'', PyStr a), (''wikipedia_entries_found'', PyBool False)])"
  using found_forms [of j e] not_found_forms [of j e]
  by (auto simp: WikipediaEntity_def split: option.splits)

lemma summarize_found:
  "summarize_entity summarize_text (PyModel ''WikipediaEntityFound''
       [(''text'', PyStr a), (''wikipedia_entries_found'', PyBool True), (''title'', PyStr b),
        (''url'', PyStr c), (''content'', PyStr d)]) =
     Inr (PyModel ''SummarizedWikipediaEntity''
       [(''text'', PyStr a), (''wikipedia_entries_found'', PyBool True), (''title'', PyStr b),
        (''url'', PyStr c), (''content'', PyStr d), (''summary'', PyStr (summarize_text d))])"
  by (simp add: summarize_entity_def and_then_def as_model_def attr_def str_attr_def Let_def schema_defs)

lemma summarize_not_found:
  "summarize_entity summarize_text (PyModel ''WikipediaEntityNotFound''
       [(''text'', PyStr a), (''wikipedia_entries_found'', PyBool False)]) =
     Inr (PyModel ''WikipediaEntityNotFound''
       [(''text'', PyStr a), (''wikipedia_entries_found'', PyBool False)])"
  by (simp add: summarize_entity_def and_then_def as_model_def attr_def)

lemma summarize_entity_conforms:
  assumes "WikipediaEntity j = Some e" and "summarize_entity summarize_text e = Inr v"
  shows "v_union [v_model SummarizedWikipediaEntity, v_model WikipediaEntityNotFound] (dump_value v) = Some v"
  using WikipediaEntity_forms [OF assms(1)]
proof (elim disjE exE)
  fix a b c d
  assume "e = PyModel ''WikipediaEntityFound''
       [(''text'', PyStr a), (''wikipedia_entries_found'', PyBool True), (''title'', PyStr b),
        (''url'', PyStr c), (''content'', PyStr d)]"
  with assms(2) have "v = PyModel ''SummarizedWikipediaEntity''
       [(''text'', PyStr a), (''wikipedia_entries_found'', PyBool True), (''title'', PyStr b),
        (''url'', PyStr c), (''content'', PyStr d), (''summary'', PyStr (summarize_text d))]"
    by (simp add: summarize_found)
  then show ?thesis by (simp add: schema_defs)
next
  fix a
  assume "e = PyModel ''WikipediaEntityNotFound''
       [(''text'', PyStr a), (''wikipedia_entries_found'', PyBool False)]"
  with assms(2) have "v = PyModel ''WikipediaEntityNotFound''
       [(''text'', PyStr a), (''wikipedia_entries_found'', PyBool False)]"
    by (simp add: summarize_not_found)
  then show ?thesis by (simp add: schema_defs)
qed

lemma summarization_conforms:
  assumes "model_validate EntitySummarizationInputSchema d = Inr x"
    and "EntitySummarization_predict summarize_text x = Inr y"
  shows "model_validate EntitySummarizationResultSchema (model_dump y) = Inr y"
proof -
  from assms(2) obtain ident body es vs where
    es: "list_attr x ''linked_entities'' = Inr es"
    and vs: "for_each (summarize_entity summarize_text) es = Inr vs"
    and y: "y = (''EntitySummarizationResultSchema'',
      [(''id'', PyStr ident), (''text'', PyStr body), (''summarized_entities'', PyList vs)])"
    by (auto simp: EntitySummarization_predict_def and_then_def split: sum.splits)
  from assms(1) es obtain js where js: "those (map WikipediaEntity js) = Some es"
    by (auto simp: EntitySummarizationInputSchema_def EntityLinkingResultSchema_def
        model_validate_def field_value_def required_def v_list_def list_attr_def attr_def
        and_then_def split: option.splits json.splits)
  let ?u = "v_union [v_model SummarizedWikipediaEntity, v_model WikipediaEntityNotFound]"
  have "those (map (\<lambda>v. ?u (dump_value v)) vs) = Some (map (\<lambda>v. v) vs)"
  proof (rule those_map_Some)
    fix v assume "v \<in> set vs"
    from for_each_results [OF vs this] obtain e
      where e: "e \<in> set es" and v: "summarize_entity summarize_text e = Inr v" by auto
    from those_results [OF js e] obtain j where "WikipediaEntity j = Some e" by auto
    from summarize_entity_conforms [OF this v] show "?u (dump_value v) = Some v" .
  qed
  then show ?thesis
    unfolding y
    by (simp add: EntitySummarizationResultSchema_def model_validate_def field_value_def
        model_dump_def required_def v_str_def v_list_def comp_def)
qed

lemma repository_services_conform:
  assumes "s = EntityRecognitionModelService ner_pipeline uuid4 \<or>
      s = EntityLinkingModelService wikipedia_page uuid4 \<or>
      s = EntitySummarizationModelService summarize_text"
    and "model_validate (get_input_schema s) d = Inr x"
    and "infer s x = Inr y"
  shows "model_validate (get_output_schema s) (model_dump y) = Inr y"
  using assms
  by (auto simp: EntityRecognitionModelService_def EntityLinkingModelService_def
      EntitySummarizationModelService_def
      intro: recognition_conforms linking_conforms summarization_conforms)

section \<open>The stand-ins, evaluated\<close>

lemmas service_defs =
  recognition_def linking_def summarization_def
  EntityRecognitionModelService_def EntityLinkingModelService_def EntitySummarizationModelService_def
  EntityRecognition_predict_def EntityLinking_predict_def EntitySummarization_predict_def
  EntityRecognitionInputSchema_def EntityRecognitionResultSchema_def EntityLinkingInputSchema_def
  EntityLinkingResultSchema_def EntitySummarizationInputSchema_def EntitySummarizationResultSchema_def
  Entity_def WikipediaEntityFound_def SummarizedWikipediaEntity_def WikipediaEntityNotFound_def
  WikipediaEntity_def v_str_def v_literal_def v_list_def v_model_def required_def with_default_def
  and_then_def attr_def str_attr_def list_attr_def as_model_def
  lookup_entry_def link_entity_def summarize_entity_def found_entry_def not_found_entry_def
  MAX_CONTENT_LENGTH_def test_ner_pipeline_def test_wikipedia_page_def test_summarize_text_def
  model_validate_def field_value_def model_dump_def predict_def trigger_topic_def

lemmas broker_defs =
  publish.simps lookup_callback_def chained_callback_def log_info_def store_response_def Let_def

lemma service_names:
  "model_name summarization = ''entity-summarization''"
  "model_name linking = ''entity-linking''"
  "model_name recognition = ''entity-recognition''"
  by (simp_all add: recognition_def linking_def summarization_def EntityRecognitionModelService_def
      EntityLinkingModelService_def EntitySummarizationModelService_def)

lemma test_registry_eq:
  "test_registry =
     \<lparr>model_services = [(''entity-summarization'', summarization), (''entity-linking'', linking),
                         (''entity-recognition'', recognition)],
      chains = [(''entity-linking'', ''entity-summarization''),
                (''entity-recognition'', ''entity-linking'')]\<rparr>"
  by (simp add: test_registry_def loaded_registry_def register_def chain_to_def
      ModelRegistry_empty_def recognition_def linking_def summarization_def
      EntityRecognitionModelService_def EntityLinkingModelService_def
      EntitySummarizationModelService_def)

lemma test_instances:
  "create_instances (model_services test_registry) =
     [(''entity-summarization'', summarization), (''entity-linking'', linking),
      (''entity-recognition'', recognition)]"
  by (simp add: test_registry_eq create_instances_def service_names)

lemma test_world_eq:
  "test_world =
     \<lparr>pubsub_client =
        \<lparr>message_queues =
           [''entity-summarization-trigger'' \<mapsto> Some (Predict summarization),
            ''entity-linking-trigger'' \<mapsto> Some (ChainedCallback linking summarization),
            ''entity-recognition-trigger'' \<mapsto> Some (ChainedCallback recognition linking)],
         last_responses = Map.empty\<rparr>,
      logged = [LogRegisteringTopic ''entity-summarization-trigger'',
                LogRegisteringTopic ''entity-linking-trigger'',
                LogRegisteringTopic ''entity-recognition-trigger'']\<rparr>"
  by (simp add: test_world_def test_registry_eq initialize_services_def create_instances_def
      service_names select_callback_def register_topic_def set_callback_def log_info_def
      world_init_def PubSubClient_init_def trigger_topic_def Let_def)

lemma run_construction: "run [NewRegistry test_registry] = test_world"
  by (simp add: run_def test_world_def)

lemma recognition_reply:
  "fst (predict recognition mercury_request lg) =
     Inr [(''id'', JStr ''doc0''), (''text'', JStr ''Mercury''),
          (''entities'', JArr [JObj [(''text'', JStr ''Mercury''), (''label'', JStr ''MISC'')]])]"
  by (simp add: mercury_request_def service_defs Let_def)

lemma recognition_validates:
  "model_validate (get_input_schema recognition) input_data =
     Inr (''EntityRecognitionInputSchema'',
          [(''id'', PyStr ''doc1''),
           (''text'', PyStr ''Barack Obama visited Microsoft headquarters in Seattle.'')])"
  by (simp add: input_data_def service_defs)

lemma recognition_output:
  "fst (predict recognition input_data lg) =
     Inr [(''id'', JStr ''doc1''),
          (''text'', JStr ''Barack Obama visited Microsoft headquarters in Seattle.''),
          (''entities'', JArr [JObj [(''text'', JStr ''Barack Obama''), (''label'', JStr ''PER'')]])]"
  by (simp add: input_data_def service_defs Let_def)

lemma summarization_reply:
  "fst (predict summarization summarization_request lg) =
     Inr [(''id'', JStr ''doc1''), (''text'', JStr ''Obama''), (''summarized_entities'', JArr [])]"
  by (simp add: service_defs summarization_request_def Let_def)

lemma publish_mercury_fails:
  "fst (publish 3 ''entity-recognition-trigger'' mercury_request ''no-id'' test_world) = Inl PageError"
  by (simp add: mercury_request_def test_world_eq broker_defs service_defs)

lemma test_requests_published:
  "published (logged (run test_requests)) =
     [(''entity-summarization-trigger'',
       [(''id'', JStr ''doc1''), (''text'', JStr ''Obama''), (''summarized_entities'', JArr [])])] @
     (''entity-summarization-trigger'',
       [(''id'', JStr ''doc2''), (''text'', JStr ''Barack Obama''),
        (''summarized_entities'', JArr [JObj
          [(''text'', JStr ''Barack Obama''), (''wikipedia_entries_found'', JBool True),
           (''title'', JStr ''Barack Obama''),
           (''url'', JStr ''https://en.wikipedia.org/wiki/Barack_Obama''),
           (''content'', JStr ''Barack Obama is an American politician....''),
           (''summary'', JStr ''An American politician.'')]])]) #
     [(''entity-linking-trigger'',
       [(''id'', JStr ''doc2''), (''text'', JStr ''Barack Obama''),
        (''linked_entities'', JArr [JObj
          [(''text'', JStr ''Barack Obama''), (''wikipedia_entries_found'', JBool True),
           (''title'', JStr ''Barack Obama''),
           (''url'', JStr ''https://en.wikipedia.org/wiki/Barack_Obama''),
           (''content'', JStr ''Barack Obama is an American politician....'')]])])]"
  by (simp add: run_def test_requests_def test_world_def [symmetric] test_world_eq broker_defs
      service_defs summarization_request_def linking_request_def)

lemma test_requests_successful:
  "successful_publishes world_init test_requests =
     [(''entity-summarization-trigger'',
       [(''id'', JStr ''doc1''), (''text'', JStr ''Obama''), (''summarized_entities'', JArr [])])] @
     (''entity-summarization-trigger'',
       [(''id'', JStr ''doc2''), (''text'', JStr ''Barack Obama''),
        (''summarized_entities'', JArr [JObj
          [(''text'', JStr ''Barack Obama''), (''wikipedia_entries_found'', JBool True),
           (''title'', JStr ''Barack Obama''),
           (''url'', JStr ''https://en.wikipedia.org/wiki/Barack_Obama''),
           (''content'', JStr ''Barack Obama is an American politician....''),
           (''summary'', JStr ''An American politician.'')]])]) #
     [(''entity-linking-trigger'',
       [(''id'', JStr ''doc2''), (''text'', JStr ''Barack Obama''),
        (''linked_entities'', JArr [JObj
          [(''text'', JStr ''Barack Obama''), (''wikipedia_entries_found'', JBool True),
           (''title'', JStr ''Barack Obama''),
           (''url'', JStr ''https://en.wikipedia.org/wiki/Barack_Obama''),
           (''content'', JStr ''Barack Obama is an American politician....'')]])])]"
  by (simp add: test_requests_def test_world_def [symmetric] test_world_eq broker_defs
      service_defs summarization_request_def linking_request_def eval_nat_numeral)

lemma publish_summarization_returns:
  "fst (publish 3 ''entity-summarization-trigger'' summarization_request ''m1'' test_world) =
     Inr [(''id'', JStr ''doc1''), (''text'', JStr ''Obama''), (''summarized_entities'', JArr [])]"
  by (simp add: test_world_eq broker_defs service_defs summarization_request_def)

section \<open>What \<^verbatim>\<open>predict\<close> returns\<close>

text \<open>
  Claim C1, as the code has it. On an input its input schema accepts, \<^verbatim>\<open>predict\<close> runs
  the inference step; when that returns a model, \<^verbatim>\<open>predict\<close> returns the model's
  \<^verbatim>\<open>model_dump()\<close>, and when it raises, the exception. The declared output schema is not
  consulted: the call is the same whatever output schema the service declares.
\<close>

theorem predict_returns_dump_of_inference_result:
  assumes "model_validate (get_input_schema s) d = Inr x"
  shows "predict s d lg =
      (case infer s x of
         Inl e \<Rightarrow> (Inl e, lg @ [LogRunningPrediction (model_name s), LogModelInput d])
       | Inr y \<Rightarrow> (Inr (model_dump y),
           lg @ [LogRunningPrediction (model_name s), LogModelInput d, LogModelOutput (model_dump y)])) \<and>
    predict (s\<lparr>get_output_schema := declared\<rparr>) d lg = predict s d lg"
  using assms by (simp add: predict_cases split: sum.splits)

text \<open>
  The recognition service on the input of the repository's test.
\<close>

theorem predict_returns_dump_of_inference_result_witness:
  "model_validate (get_input_schema recognition) input_data =
     Inr (''EntityRecognitionInputSchema'',
          [(''id'', PyStr ''doc1''),
           (''text'', PyStr ''Barack Obama visited Microsoft headquarters in Seattle.'')]) \<and>
   fst (predict recognition input_data []) =
     Inr [(''id'', JStr ''doc1''),
          (''text'', JStr ''Barack Obama visited Microsoft headquarters in Seattle.''),
          (''entities'', JArr [JObj [(''text'', JStr ''Barack Obama''), (''label'', JStr ''PER'')]])] \<and>
   predict (recognition\<lparr>get_output_schema := EntityLinkingResultSchema\<rparr>) input_data [] =
     predict recognition input_data []"
proof -
  note inst = predict_returns_dump_of_inference_result [OF recognition_validates,
      of "[]" EntityLinkingResultSchema]
  show ?thesis
    by (intro conjI)
      (rule recognition_validates, rule recognition_output, rule inst [THEN conjunct2])
qed

text \<open>
  Claim C1 as stated fails: the echo service declares the recognition result schema, which
  requires \<^verbatim>\<open>entities\<close>, and \<^verbatim>\<open>predict\<close> returns its output without that field.
\<close>

theorem predict_output_not_validated_counterexample:
  "model_validate (get_input_schema echo_service) mercury_request =
     Inr (''EntityRecognitionInputSchema'', [(''id'', PyStr ''doc0''), (''text'', PyStr ''Mercury'')]) \<and>
   fst (predict echo_service mercury_request []) =
     Inr [(''id'', JStr ''doc0''), (''text'', JStr ''Mercury'')] \<and>
   model_validate (get_output_schema echo_service) [(''id'', JStr ''doc0''), (''text'', JStr ''Mercury'')] =
     Inl ValidationError"
  by (simp add: echo_service_def mercury_request_def service_defs Let_def)

section \<open>Chained callbacks\<close>

text \<open>
  Claim C2, as the code has it. Let \<open>a\<close> be chained to \<open>b\<close>, and let \<open>a\<close>'s \<^verbatim>\<open>predict\<close>
  return \<open>y\<close> on \<open>x\<close>. Then the callback selected for \<open>a\<close> is the chained one, and calling it
  with \<open>x\<close> calls the publish function exactly once, on \<open>b\<close>'s trigger topic with the message
  \<open>y\<close>, after the prediction: it returns \<open>y\<close> if that publish returns, and raises what the
  publish raises otherwise. The publish function is arbitrary there; with the client's own,
  a call that returns has returned \<open>y\<close>, and of the publishes it has added to the log
  exactly one is to \<open>b\<close>'s trigger topic.
\<close>

theorem chained_handler_publishes_once:
  assumes "map_of chs (model_name a) = Some successor"
    and "map_of instances successor = Some b"
    and "fst (predict a x lg) = Inr y"
  shows "select_callback chs instances (model_name a) a = Inr (ChainedCallback a b) \<and>
    invoke pub (ChainedCallback a b) x w =
      (case pub (trigger_topic b) y
              (w\<lparr>logged := snd (predict a x
                  (logged w @ [LogChaining (model_name a) (model_name b) x]))\<rparr>) of
         (Inl e, w2) \<Rightarrow> (Inl e, w2)
       | (Inr r, w2) \<Rightarrow> (Inr y, w2)) \<and>
    (invoke (\<lambda>t m. publish n t m ''no-id'') (ChainedCallback a b) x w = (Inr y', w') \<longrightarrow>
       y' = y \<and>
       (\<exists>rs. published (logged w') = published (logged w) @ rs \<and>
          length (filter (\<lambda>p. fst p = trigger_topic b) rs) = 1))"
proof -
  let ?lg = "logged w @ [LogChaining (model_name a) (model_name b) x]"
  let ?w1 = "w\<lparr>logged := snd (predict a x ?lg)\<rparr>"
  have "fst (predict a x ?lg) = Inr y"
    using assms(3) by (simp add: fst_predict)
  then obtain lg' where p: "predict a x ?lg = (Inr y, lg')"
    by (metis prod.collapse)
  then have once: "invoke pub (ChainedCallback a b) x w =
      (case pub (trigger_topic b) y ?w1 of
         (Inl e, w2) \<Rightarrow> (Inl e, w2)
       | (Inr r, w2) \<Rightarrow> (Inr y, w2))" for pub
    by (simp add: chained_callback_def log_info_def Let_def)
  have chained: "select_callback chs instances (model_name a) a = Inr (ChainedCallback a b)"
    using assms(1,2) by (simp add: select_callback_def)
  have returned: "y' = y \<and>
       (\<exists>rs. published (logged w') = published (logged w) @ rs \<and>
          length (filter (\<lambda>p. fst p = trigger_topic b) rs) = 1)"
    if run: "invoke (\<lambda>t m. publish n t m ''no-id'') (ChainedCallback a b) x w = (Inr y', w')"
  proof -
    from run once [of "\<lambda>t m. publish n t m ''no-id''"] obtain r
      where down: "publish n (trigger_topic b) y ''no-id'' ?w1 = (Inr r, w')" and y': "y' = y"
      by (auto split: prod.splits sum.splits)
    have start: "published (logged ?w1) = published (logged w)"
      by (simp add: published_predict published_snoc_other)
    from publish_each_topic_once [OF down] start obtain rs where
      rs: "published (logged w') = published (logged w) @ rs" "distinct (map fst rs)"
      "rs \<noteq> []" "last rs = (trigger_topic b, r)"
      by auto
    from one_record_of_last_topic [OF rs(2,3)] rs(4)
    have "length (filter (\<lambda>p. fst p = trigger_topic b) rs) = 1" by simp
    with rs(1) y' show ?thesis by blast
  qed
  from chained once [of pub] returned show ?thesis by blast
qed

text \<open>
  Recognition chained to linking, on the input of the repository's test.
\<close>

theorem chained_handler_publishes_once_witness:
  "map_of (chains test_registry) (model_name recognition) = Some ''entity-linking'' \<and>
   map_of (create_instances (model_services test_registry)) ''entity-linking'' = Some linking \<and>
   fst (predict recognition input_data []) =
     Inr [(''id'', JStr ''doc1''),
          (''text'', JStr ''Barack Obama visited Microsoft headquarters in Seattle.''),
          (''entities'', JArr [JObj [(''text'', JStr ''Barack Obama''), (''label'', JStr ''PER'')]])] \<and>
   select_callback (chains test_registry) (create_instances (model_services test_registry))
     (model_name recognition) recognition = Inr (ChainedCallback recognition linking) \<and>
   fst (invoke (\<lambda>t m. publish 2 t m ''no-id'') (ChainedCallback recognition linking)
          input_data test_world) =
     Inr [(''id'', JStr ''doc1''),
          (''text'', JStr ''Barack Obama visited Microsoft headquarters in Seattle.''),
          (''entities'', JArr [JObj [(''text'', JStr ''Barack Obama''), (''label'', JStr ''PER'')]])] \<and>
   (\<exists>rs. published (logged (snd (invoke (\<lambda>t m. publish 2 t m ''no-id'')
            (ChainedCallback recognition linking) input_data test_world))) =
          published (logged test_world) @ rs \<and>
        length (filter (\<lambda>p. fst p = trigger_topic linking) rs) = 1)"
proof -
  let ?y = "[(''id'', JStr ''doc1''),
          (''text'', JStr ''Barack Obama visited Microsoft headquarters in Seattle.''),
          (''entities'', JArr [JObj [(''text'', JStr ''Barack Obama''), (''label'', JStr ''PER'')]])]"
  let ?i = "invoke (\<lambda>t m. publish 2 t m ''no-id'') (ChainedCallback recognition linking)
      input_data test_world"
  have a: "map_of (chains test_registry) (model_name recognition) = Some ''entity-linking''"
    by (simp add: test_registry_eq service_names)
  have b: "map_of (create_instances (model_services test_registry)) ''entity-linking'' = Some linking"
    by (simp add: test_instances)
  have c: "fst ?i = Inr ?y"
    by (simp add: input_data_def test_world_eq broker_defs service_defs)
  then have run: "?i = (Inr ?y, snd ?i)" by (metis prod.collapse)
  note inst = chained_handler_publishes_once [OF a b recognition_output [of "[]"],
      of _ test_world 2 ?y "snd ?i"]
  note returned = inst [THEN conjunct2, THEN conjunct2, THEN mp, OF run, THEN conjunct2]
  show ?thesis
    by (intro conjI)
      (rule a, rule b, rule recognition_output, rule inst [THEN conjunct1], rule c, rule returned)
qed

text \<open>
  Claim C2 as stated fails: recognition accepts the text Mercury and produces its output,
  the publish to the linking topic raises \<open>PageError\<close> (the first option of the ambiguous
  title has no page), and the chained callback raises it instead of returning the output.
\<close>

theorem chained_handler_returns_counterexample:
  "map_of (chains test_registry) (model_name recognition) = Some ''entity-linking'' \<and>
   map_of (create_instances (model_services test_registry)) ''entity-linking'' = Some linking \<and>
   select_callback (chains test_registry) (create_instances (model_services test_registry))
     (model_name recognition) recognition = Inr (ChainedCallback recognition linking) \<and>
   model_validate (get_input_schema recognition) mercury_request =
     Inr (''EntityRecognitionInputSchema'', [(''id'', PyStr ''doc0''), (''text'', PyStr ''Mercury'')]) \<and>
   fst (predict recognition mercury_request (logged test_world)) =
     Inr [(''id'', JStr ''doc0''), (''text'', JStr ''Mercury''),
          (''entities'', JArr [JObj [(''text'', JStr ''Mercury''), (''label'', JStr ''MISC'')]])] \<and>
   fst (invoke (\<lambda>t m. publish 2 t m ''no-id'') (ChainedCallback recognition linking)
          mercury_request test_world) = Inl PageError"
proof -
  have a: "map_of (chains test_registry) (model_name recognition) = Some ''entity-linking''"
    by (simp add: test_registry_eq service_names)
  have b: "map_of (create_instances (model_services test_registry)) ''entity-linking'' = Some linking"
    by (simp add: test_instances)
  have c: "select_callback (chains test_registry) (create_instances (model_services test_registry))
     (model_name recognition) recognition = Inr (ChainedCallback recognition linking)"
    by (simp add: select_callback_def a b)
  have d: "model_validate (get_input_schema recognition) mercury_request =
     Inr (''EntityRecognitionInputSchema'', [(''id'', PyStr ''doc0''), (''text'', PyStr ''Mercury'')])"
    by (simp add: mercury_request_def service_defs)
  have e: "fst (invoke (\<lambda>t m. publish 2 t m ''no-id'') (ChainedCallback recognition linking)
          mercury_request test_world) = Inl PageError"
    by (simp add: mercury_request_def test_world_eq broker_defs service_defs)
  show ?thesis
    by (intro conjI) (rule a, rule b, rule c, rule d, rule recognition_reply, rule e)
qed

section \<open>The cache of last responses\<close>

text \<open>
  Claim C3. After any history of calls on a fresh client, \<^verbatim>\<open>get_last_response\<close> of a
  topic returns the empty dict if no publish to the topic has returned in the history, and
  otherwise the response that the latest publish to the topic that returned has returned,
  the publishes made by chained callbacks included. In any state, when a publish to a topic
  returns a response, \<^verbatim>\<open>get_last_response\<close> of the topic returns that response right after.
\<close>

theorem last_response_is_latest_publish:
  "(topic \<notin> fst ` set (successful_publishes world_init requests) \<longrightarrow>
      get_last_response (run requests) topic = []) \<and>
   (successful_publishes world_init requests = earlier @ (topic, r) # later \<and>
    topic \<notin> fst ` set later \<longrightarrow>
      get_last_response (run requests) topic = r) \<and>
   (publish fuel topic message message_id w = (Inr r, w') \<longrightarrow>
      get_last_response w' topic = r)"
proof -
  have c: "last_responses (pubsub_client (run requests)) =
      map_of (rev (successful_publishes world_init requests))"
    using cache_matches_log_run [of requests] by (simp add: cache_matches_log_def published_run)
  have "get_last_response (run requests) topic = []"
    if "topic \<notin> fst ` set (successful_publishes world_init requests)"
  proof -
    from that have "map_of (rev (successful_publishes world_init requests)) topic = None"
      by (simp add: map_of_eq_None_iff)
    then show ?thesis by (simp add: get_last_response_def c)
  qed
  moreover have "get_last_response (run requests) topic = r"
    if "successful_publishes world_init requests = earlier @ (topic, r) # later"
      and "topic \<notin> fst ` set later"
    using map_of_rev_last [OF that(2), of earlier r] that(1)
    by (simp add: get_last_response_def c)
  moreover have "get_last_response w' topic = r"
    if "publish fuel topic message message_id w = (Inr r, w')"
    using publish_success_recorded [OF that] by (auto simp: get_last_response_def)
  ultimately show ?thesis by blast
qed

text \<open>
  In \<open>test_requests\<close> two publishes to the summarization topic return, the second one made
  by the callback of the linking topic, and none to the recognition topic. A publish to the
  summarization topic right after the construction returns and its response is cached.
\<close>

theorem last_response_is_latest_publish_witness:
  "''entity-recognition-trigger'' \<notin> fst ` set (successful_publishes world_init test_requests) \<and>
   get_last_response (run test_requests) ''entity-recognition-trigger'' = [] \<and>
   ''entity-summarization-trigger'' \<notin> fst ` set [(''entity-linking-trigger'',
       [(''id'', JStr ''doc2''), (''text'', JStr ''Barack Obama''),
        (''linked_entities'', JArr [JObj
          [(''text'', JStr ''Barack Obama''), (''wikipedia_entries_found'', JBool True),
           (''title'', JStr ''Barack Obama''),
           (''url'', JStr ''https://en.wikipedia.org/wiki/Barack_Obama''),
           (''content'', JStr ''Barack Obama is an American politician....'')]])])] \<and>
   get_last_response (run test_requests) ''entity-summarization-trigger'' =
     [(''id'', JStr ''doc2''), (''text'', JStr ''Barack Obama''),
      (''summarized_entities'', JArr [JObj
        [(''text'', JStr ''Barack Obama''), (''wikipedia_entries_found'', JBool True),
         (''title'', JStr ''Barack Obama''),
         (''url'', JStr ''https://en.wikipedia.org/wiki/Barack_Obama''),
         (''content'', JStr ''Barack Obama is an American politician....''),
         (''summary'', JStr ''An American politician.'')]])] \<and>
   fst (publish 3 ''entity-summarization-trigger'' summarization_request ''m1'' test_world) =
     Inr [(''id'', JStr ''doc1''), (''text'', JStr ''Obama''), (''summarized_entities'', JArr [])] \<and>
   get_last_response
     (snd (publish 3 ''entity-summarization-trigger'' summarization_request ''m1'' test_world))
     ''entity-summarization-trigger'' =
     [(''id'', JStr ''doc1''), (''text'', JStr ''Obama''), (''summarized_entities'', JArr [])]"
proof -
  let ?p = "publish 3 ''entity-summarization-trigger'' summarization_request ''m1'' test_world"
  have a: "''entity-recognition-trigger'' \<notin> fst ` set (successful_publishes world_init test_requests)"
    by (simp add: test_requests_successful)
  have b: "''entity-summarization-trigger'' \<notin> fst ` set [(''entity-linking-trigger'',
       [(''id'', JStr ''doc2''), (''text'', JStr ''Barack Obama''),
        (''linked_entities'', JArr [JObj
          [(''text'', JStr ''Barack Obama''), (''wikipedia_entries_found'', JBool True),
           (''title'', JStr ''Barack Obama''),
           (''url'', JStr ''https://en.wikipedia.org/wiki/Barack_Obama''),
           (''content'', JStr ''Barack Obama is an American politician....'')]])])]"
    by simp
  have run: "?p = (Inr [(''id'', JStr ''doc1''), (''text'', JStr ''Obama''),
      (''summarized_entities'', JArr [])], snd ?p)"
    using publish_summarization_returns by (metis prod.collapse)
  note first = last_response_is_latest_publish [of "''entity-recognition-trigger''" test_requests,
      THEN conjunct1, THEN mp, OF a]
  note second = last_response_is_latest_publish [THEN conjunct2, THEN conjunct1, THEN mp,
      OF conjI, OF test_requests_successful b]
  note third = last_response_is_latest_publish [THEN conjunct2, THEN conjunct2, THEN mp, OF run]
  show ?thesis
    by (intro conjI)
      (rule a, rule first, rule b, rule second, rule publish_summarization_returns, rule third)
qed

section \<open>Publishing to a topic without a callback\<close>

text \<open>
  Claim C4. A publish to a topic that is not in the client's table raises (the code's
  \<^verbatim>\<open>ValueError\<close> with the message "Topic T not registered.", the spec's UnknownTopicError)
  and changes nothing; a publish to a topic that is in the table with the callback
  \<^verbatim>\<open>None\<close> raises the \<^verbatim>\<open>ValueError\<close> with the message "No callback registered for topic
  T." (the spec's NoHandlerError) and changes nothing. Both hold however deep callbacks may
  nest. After any history of calls on a fresh client, a topic whose registration the log
  does not record is not in the table.
\<close>

theorem publish_unknown_topic_fails:
  "(message_queues (pubsub_client w) topic = None \<longrightarrow>
      publish fuel topic message message_id w =
        (Inl (ValueError (''Topic '' @ topic @ '' not registered.'')), w)) \<and>
   (message_queues (pubsub_client w) topic = Some None \<longrightarrow>
      publish fuel topic message message_id w =
        (Inl (ValueError (''No callback registered for topic '' @ topic @ ''.'')), w)) \<and>
   (LogRegisteringTopic topic \<notin> set (logged (run requests)) \<longrightarrow>
      publish fuel topic message message_id (run requests) =
        (Inl (ValueError (''Topic '' @ topic @ '' not registered.'')), run requests))"
  by (simp add: publish_lookup_failed lookup_callback_simps
      never_registered_iff_not_in_table [symmetric])

text \<open>
  At the fresh client no topic is registered; between lines 18 and 21 of
  \<^verbatim>\<open>register_topic\<close> the topic is in the table without a callback; the constructed registry
  has registered no translation topic.
\<close>

theorem publish_unknown_topic_fails_witness:
  "message_queues (pubsub_client world_init) ''entity-recognition-trigger'' = None \<and>
   publish 3 ''entity-recognition-trigger'' mercury_request ''no-id'' world_init =
     (Inl (ValueError ''Topic entity-recognition-trigger not registered.''), world_init) \<and>
   message_queues (pubsub_client (set_callback ''entity-recognition-trigger'' None world_init))
     ''entity-recognition-trigger'' = Some None \<and>
   publish 3 ''entity-recognition-trigger'' mercury_request ''no-id''
       (set_callback ''entity-recognition-trigger'' None world_init) =
     (Inl (ValueError ''No callback registered for topic entity-recognition-trigger.''),
      set_callback ''entity-recognition-trigger'' None world_init) \<and>
   LogRegisteringTopic ''entity-translation-trigger'' \<notin> set (logged (run [NewRegistry test_registry])) \<and>
   publish 3 ''entity-translation-trigger'' mercury_request ''no-id'' (run [NewRegistry test_registry]) =
     (Inl (ValueError ''Topic entity-translation-trigger not registered.''),
      run [NewRegistry test_registry])"
proof -
  let ?t = "''entity-recognition-trigger''"
  let ?w = "set_callback ?t None world_init"
  have a: "message_queues (pubsub_client world_init) ?t = None"
    by (simp add: world_init_def PubSubClient_init_def)
  have b: "message_queues (pubsub_client ?w) ?t = Some None"
    by (simp add: set_callback_def)
  have c: "LogRegisteringTopic ''entity-translation-trigger'' \<notin>
      set (logged (run [NewRegistry test_registry]))"
    by (simp add: run_construction test_world_eq)
  note unknown = publish_unknown_topic_fails [of world_init ?t 3 mercury_request "''no-id''",
      THEN conjunct1, THEN mp, OF a]
  note no_handler = publish_unknown_topic_fails [of ?w ?t 3 mercury_request "''no-id''",
      THEN conjunct2, THEN conjunct1, THEN mp, OF b]
  note never = publish_unknown_topic_fails [of _ "''entity-translation-trigger''" 3
      mercury_request "''no-id''" "[NewRegistry test_registry]",
      THEN conjunct2, THEN conjunct2, THEN mp, OF c]
  have unknown': "publish 3 ?t mercury_request ''no-id'' world_init =
      (Inl (ValueError ''Topic entity-recognition-trigger not registered.''), world_init)"
    using unknown by simp
  have no_handler': "publish 3 ?t mercury_request ''no-id'' ?w =
      (Inl (ValueError ''No callback registered for topic entity-recognition-trigger.''), ?w)"
    using no_handler by simp
  have never': "publish 3 ''entity-translation-trigger'' mercury_request ''no-id''
      (run [NewRegistry test_registry]) =
      (Inl (ValueError ''Topic entity-translation-trigger not registered.''),
       run [NewRegistry test_registry])"
    using never by simp
  show ?thesis
    by (intro conjI) (rule a, rule unknown', rule b, rule no_handler', rule c, rule never')
qed

section \<open>Registering twice\<close>

text \<open>
  Claim C5. The table holds one callback for a topic. Registering \<open>a\<close> and then \<open>b\<close> under
  the same topic always succeeds and leaves the client as if any other callback had been
  registered before \<open>b\<close>: the table maps the topic to \<open>b\<close> and is otherwise as before. A
  publish to the topic then runs \<open>b\<close>, and when \<open>b\<close> returns a response, the publish returns
  it and \<^verbatim>\<open>get_last_response\<close> reads it.
\<close>

theorem second_registration_replaces_first:
  "register_topic topic b (register_topic topic a w) = register_topic topic b (register_topic topic a' w) \<and>
   message_queues (pubsub_client (register_topic topic b (register_topic topic a w))) =
     (message_queues (pubsub_client w))(topic \<mapsto> Some b) \<and>
   publish (Suc n) topic message message_id (register_topic topic b (register_topic topic a w)) =
     (case invoke (\<lambda>t m. publish n t m ''no-id'') b message (register_topic topic b (register_topic topic a w)) of
        (Inl e, w1) \<Rightarrow> (Inl e, w1)
      | (Inr response, w1) \<Rightarrow> store_response topic message_id response w1) \<and>
   (invoke (\<lambda>t m. publish n t m ''no-id'') b message (register_topic topic b (register_topic topic a w)) = (Inr r, w1) \<longrightarrow>
      fst (publish (Suc n) topic message message_id (register_topic topic b (register_topic topic a w))) = Inr r \<and>
      get_last_response (snd (publish (Suc n) topic message message_id (register_topic topic b (register_topic topic a w)))) topic = r)"
proof -
  let ?w2 = "register_topic topic b (register_topic topic a w)"
  have look: "lookup_callback ?w2 topic = Inr b"
    by (simp add: lookup_callback_def register_topic_client)
  have same: "?w2 = register_topic topic b (register_topic topic a' w)"
    by (simp add: register_twice)
  have table: "message_queues (pubsub_client ?w2) = (message_queues (pubsub_client w))(topic \<mapsto> Some b)"
    by (simp add: register_topic_client)
  have observed: "fst (publish (Suc n) topic message message_id ?w2) = Inr r \<and>
      get_last_response (snd (publish (Suc n) topic message message_id ?w2)) topic = r"
    if "invoke (\<lambda>t m. publish n t m ''no-id'') b message ?w2 = (Inr r, w1)"
    using that by (simp add: publish_Suc [OF look] store_response_def get_last_response_def log_info_def Let_def)
  from same table publish_Suc [OF look] observed show ?thesis by blast
qed

text \<open>
  Recognition, then summarization, registered under one topic: a publish returns and
  caches the summarization's output.
\<close>

theorem second_registration_replaces_first_witness:
  "invoke (\<lambda>t m. publish 1 t m ''no-id'') (Predict summarization) summarization_request
      (register_topic ''shared'' (Predict summarization)
        (register_topic ''shared'' (Predict recognition) world_init))
    = (Inr [(''id'', JStr ''doc1''), (''text'', JStr ''Obama''), (''summarized_entities'', JArr [])],
       snd (invoke (\<lambda>t m. publish 1 t m ''no-id'') (Predict summarization) summarization_request
         (register_topic ''shared'' (Predict summarization)
           (register_topic ''shared'' (Predict recognition) world_init)))) \<and>
   fst (publish (Suc 1) ''shared'' summarization_request ''no-id''
      (register_topic ''shared'' (Predict summarization)
        (register_topic ''shared'' (Predict recognition) world_init)))
    = Inr [(''id'', JStr ''doc1''), (''text'', JStr ''Obama''), (''summarized_entities'', JArr [])] \<and>
   get_last_response (snd (publish (Suc 1) ''shared'' summarization_request ''no-id''
      (register_topic ''shared'' (Predict summarization)
        (register_topic ''shared'' (Predict recognition) world_init)))) ''shared''
    = [(''id'', JStr ''doc1''), (''text'', JStr ''Obama''), (''summarized_entities'', JArr [])]"
proof -
  let ?r = "[(''id'', JStr ''doc1''), (''text'', JStr ''Obama''), (''summarized_entities'', JArr [])]"
  let ?w = "register_topic ''shared'' (Predict summarization)
    (register_topic ''shared'' (Predict recognition) world_init)"
  let ?i = "invoke (\<lambda>t m. publish 1 t m ''no-id'') (Predict summarization) summarization_request ?w"
  have "fst ?i = Inr ?r"
    using summarization_reply [of "logged ?w"] by (simp add: invoke_Predict del: invoke.simps)
  then have run: "?i = (Inr ?r, snd ?i)" by (metis prod.collapse)
  note inst = second_registration_replaces_first [of "''shared''" "Predict summarization"
      "Predict recognition" world_init "Predict recognition" 1 summarization_request "''no-id''"
      ?r "snd ?i"]
  note observed = inst [THEN conjunct2, THEN conjunct2, THEN conjunct2, THEN mp, OF run]
  show ?thesis
    by (intro conjI) (rule run, rule observed [THEN conjunct1], rule observed [THEN conjunct2])
qed

section \<open>Rejected inputs\<close>

text \<open>
  Claim C6. On an input that lacks a required field of the service's input schema,
  \<^verbatim>\<open>predict\<close> raises \<open>ValidationError\<close>. Called directly it does not touch the client; called
  through a publish to the service's trigger topic, where the service's callback (plain or
  chained) is registered, the publish raises \<open>ValidationError\<close> and the client, the cached
  response of the topic included, is as before.
\<close>

theorem missing_required_field_fails:
  assumes "missing_required (get_input_schema s) d"
  shows "fst (predict s d lg) = Inl ValidationError \<and>
    pubsub_client (perform w (CallPredict s d)) = pubsub_client w \<and>
    (message_queues (pubsub_client w) (trigger_topic s) = Some (Some h) \<and>
       (h = Predict s \<or> h = ChainedCallback s t) \<longrightarrow>
     fst (publish (Suc n) (trigger_topic s) d message_id w) = Inl ValidationError \<and>
     pubsub_client (snd (publish (Suc n) (trigger_topic s) d message_id w)) = pubsub_client w \<and>
     get_last_response (snd (publish (Suc n) (trigger_topic s) d message_id w)) (trigger_topic s) =
       get_last_response w (trigger_topic s))"
proof -
  note p = predict_missing_required [OF assms]
  have "fst (publish (Suc n) (trigger_topic s) d message_id w) = Inl ValidationError \<and>
     pubsub_client (snd (publish (Suc n) (trigger_topic s) d message_id w)) = pubsub_client w"
    if "message_queues (pubsub_client w) (trigger_topic s) = Some (Some h)"
      and "h = Predict s \<or> h = ChainedCallback s t"
  proof -
    have look: "lookup_callback w (trigger_topic s) = Inr h"
      using that(1) by (simp add: lookup_callback_def)
    from that(2) show ?thesis
      by (auto simp: publish_Suc [OF look] p chained_callback_def log_info_def Let_def)
  qed
  then show ?thesis by (auto simp: p get_last_response_def)
qed

text \<open>
  The recognition service on an input without \<^verbatim>\<open>text\<close>.
\<close>

theorem missing_required_field_fails_witness:
  "missing_required (get_input_schema recognition) [(''id'', JStr ''doc1'')] \<and>
   message_queues (pubsub_client test_world) (trigger_topic recognition) =
     Some (Some (ChainedCallback recognition linking)) \<and>
   fst (predict recognition [(''id'', JStr ''doc1'')] []) = Inl ValidationError \<and>
   fst (publish (Suc 2) (trigger_topic recognition) [(''id'', JStr ''doc1'')] ''no-id'' test_world) =
     Inl ValidationError \<and>
   get_last_response
     (snd (publish (Suc 2) (trigger_topic recognition) [(''id'', JStr ''doc1'')] ''no-id'' test_world))
     (trigger_topic recognition) = []"
proof -
  have m: "missing_required (get_input_schema recognition) [(''id'', JStr ''doc1'')]"
    by (simp add: missing_required_def service_defs)
  have q: "message_queues (pubsub_client test_world) (trigger_topic recognition) =
     Some (Some (ChainedCallback recognition linking))"
    by (simp add: test_world_eq trigger_topic_def service_names)
  have g: "get_last_response test_world (trigger_topic recognition) = []"
    by (simp add: test_world_eq get_last_response_def trigger_topic_def service_names)
  note inst = missing_required_field_fails [OF m,
      of "[]" test_world "ChainedCallback recognition linking" linking 2 "''no-id''"]
  note through = inst [THEN conjunct2, THEN conjunct2, THEN mp, OF conjI, OF q disjI2, OF refl]
  show ?thesis
    by (intro conjI)
      (rule m, rule q, rule inst [THEN conjunct1], rule through [THEN conjunct1],
       rule through [THEN conjunct2, THEN conjunct2, unfolded g])
qed

section \<open>Construction of the registry\<close>

text \<open>
  Claim C7. If a service of the catalog has a successor in \<^verbatim>\<open>_chains\<close> whose name no
  service of the catalog bears, the construction of a registry raises \<open>KeyError\<close>.
\<close>

theorem missing_successor_fails_construction:
  assumes "s \<in> snd ` set (model_services cls)"
    and "map_of (chains cls) (model_name s) = Some successor"
    and "successor \<notin> model_name ` snd ` set (model_services cls)"
  shows "\<exists>t. fst (initialize_services cls w) = Inl (KeyError t)"
proof -
  let ?inst = "create_instances (model_services cls)"
  have "model_name s \<in> fst ` set ?inst"
    using assms(1) by (simp add: create_instances_keys)
  then obtain s' where mem: "(model_name s, s') \<in> set ?inst" by force
  have "map_of ?inst successor = None"
    using assms(3) by (simp add: map_of_eq_None_iff create_instances_keys)
  then have "select_callback (chains cls) ?inst (model_name s) s' = Inl (KeyError successor)"
    using assms(2) by (simp add: select_callback_def)
  from setup_topics_fails [OF mem this, of w]
  show ?thesis
    by (auto simp: initialize_services_def Let_def split: prod.splits sum.splits)
qed

text \<open>
  Linking chained to summarization, with only linking registered.
\<close>

theorem missing_successor_fails_construction_witness:
  "linking \<in> snd ` set (model_services (register linking (chain_to summarization linking ModelRegistry_empty))) \<and>
   map_of (chains (register linking (chain_to summarization linking ModelRegistry_empty))) (model_name linking)
     = Some ''entity-summarization'' \<and>
   ''entity-summarization'' \<notin> model_name ` snd ` set (model_services (register linking (chain_to summarization linking ModelRegistry_empty))) \<and>
   (\<exists>t. fst (initialize_services (register linking (chain_to summarization linking ModelRegistry_empty)) world_init)
      = Inl (KeyError t))"
proof -
  let ?cls = "register linking (chain_to summarization linking ModelRegistry_empty)"
  have a: "linking \<in> snd ` set (model_services ?cls)"
    by (simp add: register_def chain_to_def ModelRegistry_empty_def)
  have b: "map_of (chains ?cls) (model_name linking) = Some ''entity-summarization''"
    by (simp add: register_def chain_to_def ModelRegistry_empty_def service_names)
  have c: "''entity-summarization'' \<notin> model_name ` snd ` set (model_services ?cls)"
    by (simp add: register_def chain_to_def ModelRegistry_empty_def service_names)
  show ?thesis
    by (intro conjI)
      (rule a, rule b, rule c, rule missing_successor_fails_construction [OF a b c, of world_init])
qed

section \<open>Services without a successor\<close>

text \<open>
  Claim C8. A service without a successor gets its plain \<^verbatim>\<open>predict\<close> as callback. Calling
  it does not use the publish function at all, leaves the client as it was and adds no
  record of a publish to the log. Run by a publish to its topic, it leaves the table of
  callbacks and the cached responses of all other topics as they were.
\<close>

theorem unchained_predict_publishes_nothing:
  assumes "map_of chs service_name = None"
  shows "select_callback chs instances service_name s = Inr (Predict s) \<and>
    invoke pub (Predict s) message w =
      (fst (predict s message (logged w)), w\<lparr>logged := snd (predict s message (logged w))\<rparr>) \<and>
    pubsub_client (snd (invoke pub (Predict s) message w)) = pubsub_client w \<and>
    published (logged (snd (invoke pub (Predict s) message w))) = published (logged w) \<and>
    (message_queues (pubsub_client w) topic = Some (Some (Predict s)) \<longrightarrow>
       message_queues (pubsub_client (snd (publish fuel topic message message_id w))) =
         message_queues (pubsub_client w) \<and>
       (\<forall>t. t \<noteq> topic \<longrightarrow>
          last_responses (pubsub_client (snd (publish fuel topic message message_id w))) t =
            last_responses (pubsub_client w) t))"
proof -
  note inv = invoke_Predict [of _ s message w]
  have "message_queues (pubsub_client (snd (publish fuel topic message message_id w))) =
         message_queues (pubsub_client w) \<and>
       (\<forall>t. t \<noteq> topic \<longrightarrow>
          last_responses (pubsub_client (snd (publish fuel topic message message_id w))) t =
            last_responses (pubsub_client w) t)"
    if "message_queues (pubsub_client w) topic = Some (Some (Predict s))"
  proof -
    have look: "lookup_callback w topic = Inr (Predict s)"
      using that by (simp add: lookup_callback_def)
    show ?thesis
    proof (cases fuel)
      case 0
      then show ?thesis by (simp add: publish_no_fuel [OF look])
    next
      case (Suc n)
      then show ?thesis
        by (auto simp: publish_Suc [OF look] store_response_def log_info_def Let_def
            split: prod.splits sum.splits)
    qed
  qed
  moreover have "select_callback chs instances service_name s = Inr (Predict s)"
    using assms by (simp add: select_callback_def)
  moreover have "pubsub_client (snd (invoke pub (Predict s) message w)) = pubsub_client w"
    unfolding inv by simp
  moreover have "published (logged (snd (invoke pub (Predict s) message w))) = published (logged w)"
    unfolding inv by (simp add: published_predict)
  ultimately show ?thesis using inv [of pub] by blast
qed

text \<open>
  Summarization, the last stage of the repository's pipeline.
\<close>

theorem unchained_predict_publishes_nothing_witness:
  "map_of (chains test_registry) ''entity-summarization'' = None \<and>
   select_callback (chains test_registry) (create_instances (model_services test_registry))
     ''entity-summarization'' summarization = Inr (Predict summarization) \<and>
   message_queues (pubsub_client test_world) ''entity-summarization-trigger'' =
     Some (Some (Predict summarization)) \<and>
   pubsub_client (snd (invoke (\<lambda>t m. publish 2 t m ''no-id'') (Predict summarization)
      summarization_request test_world)) = pubsub_client test_world \<and>
   published (logged (snd (invoke (\<lambda>t m. publish 2 t m ''no-id'') (Predict summarization)
      summarization_request test_world))) = [] \<and>
   last_responses (pubsub_client (snd (publish 3 ''entity-summarization-trigger''
      summarization_request ''no-id'' test_world))) ''entity-linking-trigger'' = None"
proof -
  have a: "map_of (chains test_registry) ''entity-summarization'' = None"
    by (simp add: test_registry_eq)
  have q: "message_queues (pubsub_client test_world) ''entity-summarization-trigger'' =
      Some (Some (Predict summarization))"
    by (simp add: test_world_eq)
  have p: "published (logged test_world) = []"
    by (simp add: test_world_eq)
  have l: "last_responses (pubsub_client test_world) ''entity-linking-trigger'' = None"
    by (simp add: test_world_eq)
  note inst = unchained_predict_publishes_nothing [OF a,
      of "create_instances (model_services test_registry)" summarization
      "\<lambda>t m. publish 2 t m ''no-id''" summarization_request
      test_world "''entity-summarization-trigger''" 3 "''no-id''"]
  note t = inst [THEN conjunct1]
  note c = inst [THEN conjunct2, THEN conjunct2, THEN conjunct1]
  note d = inst [THEN conjunct2, THEN conjunct2, THEN conjunct2, THEN conjunct1]
  note e = inst [THEN conjunct2, THEN conjunct2, THEN conjunct2, THEN conjunct2, THEN mp, OF q,
      THEN conjunct2, THEN spec, of "''entity-linking-trigger''", THEN mp]
  have e': "last_responses (pubsub_client (snd (publish 3 ''entity-summarization-trigger''
      summarization_request ''no-id'' test_world))) ''entity-linking-trigger'' = None"
    using e l by simp
  show ?thesis
    by (intro conjI) (rule a, rule t, rule q, rule c, rule d [unfolded p], rule e')
qed

section \<open>Publishes that raise\<close>

text \<open>
  Claim C9. A publish that raises, whether its own callback raised or a publish further
  down the chain did, leaves every cached response (and the table of callbacks) as it was
  before the call.
\<close>

theorem failed_publish_updates_no_cache:
  "publish fuel topic message message_id w = (Inl e, w') \<Longrightarrow>
   last_responses (pubsub_client w') = last_responses (pubsub_client w) \<and>
   message_queues (pubsub_client w') = message_queues (pubsub_client w)"
proof -
  have "publish fuel topic message message_id w = (Inl e, w') \<Longrightarrow> pubsub_client w' = pubsub_client w"
  proof (induction fuel arbitrary: topic message message_id w w' e)
    case 0
    then show ?case
      by (cases "lookup_callback w topic") (auto simp: publish_lookup_failed publish_no_fuel)
  next
    case (Suc n)
    show ?case
    proof (cases "lookup_callback w topic")
      case (Inl a)
      with Suc.prems show ?thesis by (simp add: publish_lookup_failed)
    next
      case (Inr cb)
      obtain r w1 where inv: "invoke (\<lambda>t m. publish n t m ''no-id'') cb message w = (r, w1)"
        by (cases "invoke (\<lambda>t m. publish n t m ''no-id'') cb message w")
      show ?thesis
      proof (cases r)
        case (Inl e1)
        with Suc.prems Inr inv have "w' = w1" by (simp add: publish_Suc)
        moreover have "pubsub_client w1 = pubsub_client w"
          using invoke_error_keeps_client [of "\<lambda>t m. publish n t m ''no-id''" cb message w e1 w1]
            Suc.IH inv Inl by blast
        ultimately show ?thesis by simp
      next
        case (Inr resp)
        with Suc.prems \<open>lookup_callback w topic = Inr cb\<close> inv show ?thesis
          by (simp add: publish_Suc store_response_def Let_def)
      qed
    qed
  qed
  then show "publish fuel topic message message_id w = (Inl e, w') \<Longrightarrow>
    last_responses (pubsub_client w') = last_responses (pubsub_client w) \<and>
    message_queues (pubsub_client w') = message_queues (pubsub_client w)"
    by simp
qed

text \<open>
  Recognition is chained to linking. On the text Mercury the recognition succeeds, the
  linking raises, and the publish to the recognition topic raises with it: no topic has a
  cached response afterwards.
\<close>

theorem failed_publish_updates_no_cache_witness:
  "fst (predict recognition mercury_request (logged test_world)) =
     Inr [(''id'', JStr ''doc0''), (''text'', JStr ''Mercury''),
          (''entities'', JArr [JObj [(''text'', JStr ''Mercury''), (''label'', JStr ''MISC'')]])] \<and>
   fst (publish 3 ''entity-recognition-trigger'' mercury_request ''no-id'' test_world)
     = Inl PageError \<and>
   last_responses (pubsub_client
      (snd (publish 3 ''entity-recognition-trigger'' mercury_request ''no-id'' test_world)))
     = Map.empty"
proof -
  let ?p = "publish 3 ''entity-recognition-trigger'' mercury_request ''no-id'' test_world"
  have "?p = (Inl PageError, snd ?p)"
    using publish_mercury_fails by (metis prod.collapse)
  from failed_publish_updates_no_cache [OF this]
  have "last_responses (pubsub_client (snd ?p)) = Map.empty"
    by (simp add: test_world_eq)
  then show ?thesis
    by (intro conjI) (rule recognition_reply, rule publish_mercury_fails)
qed

section \<open>Registration and the cache\<close>

text \<open>
  Claim C10. \<^verbatim>\<open>register_topic\<close> leaves the cached response of every topic as it was, the
  topic being registered included: what \<^verbatim>\<open>get_last_response\<close> returned before the
  registration it returns after it.
\<close>

theorem register_topic_keeps_last_responses:
  "last_responses (pubsub_client (register_topic topic callback w)) =
     last_responses (pubsub_client w) \<and>
   get_last_response (register_topic topic callback w) t = get_last_response w t"
  by (simp add: register_topic_client get_last_response_def)

end
